theory Spec2Isabelle
  imports Main
begin

section \<open>Layout suggestion analysis (src/tir/schedule/analysis/layout.cc)\<close>

text \<open>
  A shallow embedding of \<^verbatim>\<open>GetStrides\<close>, \<^verbatim>\<open>SplitExprCollector\<close> and
  \<^verbatim>\<open>SuggestIndexMap\<close>. Expressions of the host IR are a datatype; a failed
  \<^verbatim>\<open>ICHECK\<close> and a thrown C++ exception are values of \<open>error\<close>, so a function that can
  abort returns \<open>error + 'a\<close>.
\<close>

subsection \<open>Data model\<close>

text \<open>
  A \<^verbatim>\<open>Var\<close> is identified by its node, not by its name; the model names each node by a
  string. Data types of expressions are erased: every expression is integer valued, and
  \<^verbatim>\<open>make_const(dtype, v)\<close> is \<open>IntImm v\<close>. The overloaded operators \<^verbatim>\<open>+\<close>, \<^verbatim>\<open>*\<close>,
  \<^verbatim>\<open>floordiv\<close> and \<^verbatim>\<open>floormod\<close> build the node of the same name. The nodes of the
  iterator-map form (\<^verbatim>\<open>IterSumExpr\<close>, \<^verbatim>\<open>IterSplitExpr\<close>, \<^verbatim>\<open>IterMark\<close>) are expressions
  too, which is why the source of a mark is inspected with \<^verbatim>\<open>as<...>()\<close>. The value of
  an integer immediate and the factors of a \<^verbatim>\<open>SplitExpr\<close> are \<^verbatim>\<open>int64_t\<close> in the source
  and \<open>int\<close> here: the code compares lower factors and does no arithmetic on them.
\<close>

type_synonym var = string

datatype prim_expr =
    NullExpr
  | IntImm int
  | VarNode var
  | Add prim_expr prim_expr
  | Mul prim_expr prim_expr
  | FloorDiv prim_expr prim_expr
  | FloorMod prim_expr prim_expr
  | IterSumExprNode iter_sum_expr
and iter_sum_expr =
    IterSumExpr "iter_split_expr list" prim_expr
and iter_split_expr =
    IterSplitExpr iter_mark prim_expr prim_expr prim_expr
and iter_mark =
    IterMark prim_expr prim_expr

text \<open>
  \<open>IterSumExpr args base\<close>; \<open>IterSplitExpr source lower_factor extent scale\<close>;
  \<open>IterMark source extent\<close>.
\<close>

record buffer =
  shape :: "prim_expr list"
  strides :: "prim_expr list"

text \<open>
  The invariant of a buffer descriptor: "strides, if present, match shape length".
\<close>

definition buffer_invariant :: "buffer \<Rightarrow> bool" where
  "buffer_invariant b = (strides b = [] \<or> length (strides b) = length (shape b))"

datatype error =
    StridesArity nat nat
  | IterSumArity nat
  | UnexpectedType prim_expr
  | IndicesArity nat nat
  | IndexError nat nat
  | OutOfRange var
  | DivideByZero

text \<open>
  \<open>StridesArity\<close>: \<^verbatim>\<open>ICHECK_EQ(buffer->strides.size(), buffer->shape.size())\<close>;
  \<open>IterSumArity\<close>: \<^verbatim>\<open>ICHECK_EQ(iter_sum_exprs.size(), 1)\<close>;
  \<open>UnexpectedType\<close>: \<^verbatim>\<open>ICHECK(false) << "Unexpected type: "\<close>;
  \<open>IndicesArity\<close>: \<^verbatim>\<open>ICHECK_EQ(indices.size(), shape.size())\<close>;
  \<open>IndexError\<close>: the bounds check of \<^verbatim>\<open>Array::operator[]\<close>;
  \<open>OutOfRange\<close>: \<^verbatim>\<open>std::out_of_range\<close> thrown by \<^verbatim>\<open>unordered_map::at\<close>;
  \<open>DivideByZero\<close>: the assertion of \<^verbatim>\<open>floormod\<close> and \<^verbatim>\<open>floordiv\<close> on a constant divisor 0.
\<close>

text \<open>
  The value an arithmetic expression denotes under a valuation of its variables. A null
  reference and the nodes of the iterator-map form denote nothing, and neither does a
  division by zero.
\<close>

fun eval :: "(var \<Rightarrow> int) \<Rightarrow> prim_expr \<Rightarrow> int option" where
  "eval env NullExpr = None"
| "eval env (IntImm v) = Some v"
| "eval env (VarNode x) = Some (env x)"
| "eval env (Add a b) =
     (case eval env a of None \<Rightarrow> None
      | Some x \<Rightarrow> (case eval env b of None \<Rightarrow> None | Some y \<Rightarrow> Some (x + y)))"
| "eval env (Mul a b) =
     (case eval env a of None \<Rightarrow> None
      | Some x \<Rightarrow> (case eval env b of None \<Rightarrow> None | Some y \<Rightarrow> Some (x * y)))"
| "eval env (FloorDiv a b) =
     (case eval env a of None \<Rightarrow> None
      | Some x \<Rightarrow> (case eval env b of None \<Rightarrow> None
          | Some y \<Rightarrow> if y = 0 then None else Some (x div y)))"
| "eval env (FloorMod a b) =
     (case eval env a of None \<Rightarrow> None
      | Some x \<Rightarrow> (case eval env b of None \<Rightarrow> None
          | Some y \<Rightarrow> if y = 0 then None else Some (x mod y)))"
| "eval env (IterSumExprNode s) = None"

subsection \<open>GetStrides\<close>

text \<open>
  The loop \<^verbatim>\<open>for (int i = ndim - 1; i >= 0; --i)\<close>: the first argument of \<open>strides_loop\<close>
  is \<open>i + 1\<close>, the number of positions still to be set.
\<close>

fun strides_loop :: "prim_expr list \<Rightarrow> nat \<Rightarrow> prim_expr \<Rightarrow> prim_expr list \<Rightarrow> prim_expr list" where
  "strides_loop shp 0 stride arr = arr"
| "strides_loop shp (Suc i) stride arr =
     strides_loop shp i (Mul stride (shp ! i)) (arr[i := stride])"

definition GetStrides :: "buffer \<Rightarrow> error + prim_expr list" where
  "GetStrides b =
     (if strides b \<noteq> [] then
        (if length (strides b) \<noteq> length (shape b)
         then Inl (StridesArity (length (strides b)) (length (shape b)))
         else Inr (strides b))
      else
        (let ndim = length (shape b) in
         if ndim = 0 then Inr []
         else Inr (strides_loop (shape b) ndim (IntImm 1) (replicate ndim NullExpr))))"

subsection \<open>SplitExprCollector\<close>

record SplitExpr =
  source :: var
  lower_factor :: int
  extent :: int

record collector =
  failed :: bool
  exprs :: "SplitExpr list"

text \<open>
  Modelled from the spec: \<^verbatim>\<open>as_const_int\<close> is declared outside this file; it yields the
  value of an expression that is a "statically known integer", that is an integer
  immediate, and a null pointer for every other expression.
\<close>

fun as_const_int :: "prim_expr \<Rightarrow> int option" where
  "as_const_int (IntImm v) = Some v"
| "as_const_int e = None"

text \<open>
  The two overloads of \<^verbatim>\<open>Visit\<close>, with the collector's fields \<^verbatim>\<open>failed_\<close> and
  \<^verbatim>\<open>exprs_\<close> passed as state (a name cannot end with an underscore here). The
  loop over \<^verbatim>\<open>expr->args\<close> is \<open>Visit_args\<close>; a failed \<^verbatim>\<open>ICHECK\<close> leaves it at once,
  setting \<^verbatim>\<open>failed_\<close> does not.
\<close>

fun Visit_split :: "iter_split_expr \<Rightarrow> collector \<Rightarrow> error + collector"
  and Visit_sum :: "iter_sum_expr \<Rightarrow> collector \<Rightarrow> error + collector"
  and Visit_args :: "iter_split_expr list \<Rightarrow> collector \<Rightarrow> error + collector"
where
  "Visit_split (IterSplitExpr (IterMark (VarNode v) mext) lf ext sc) c =
     (case as_const_int lf of
        None \<Rightarrow> Inr (c\<lparr>failed := True\<rparr>)
      | Some lower \<Rightarrow>
          (case as_const_int ext of
             None \<Rightarrow> Inr (c\<lparr>failed := True\<rparr>)
           | Some ex \<Rightarrow>
               Inr (c\<lparr>exprs := exprs c @ [\<lparr>source = v, lower_factor = lower, extent = ex\<rparr>]\<rparr>)))"
| "Visit_split (IterSplitExpr (IterMark (IterSumExprNode s) mext) lf ext sc) c = Visit_sum s c"
| "Visit_split (IterSplitExpr (IterMark src mext) lf ext sc) c = Inl (UnexpectedType src)"
| "Visit_sum (IterSumExpr args base) c = Visit_args args c"
| "Visit_args [] c = Inr c"
| "Visit_args (a # as) c =
     (case Visit_split a c of Inl e \<Rightarrow> Inl e | Inr c' \<Rightarrow> Visit_args as c')"

subsection \<open>The host: the collaborators outside this file\<close>

datatype range = RangeNode prim_expr prim_expr

definition Range_FromMinExtent :: "prim_expr \<Rightarrow> prim_expr \<Rightarrow> range" where
  "Range_FromMinExtent mn ext = RangeNode mn ext"

text \<open>
  The \<^verbatim>\<open>arith::Analyzer\<close> is the one shared mutable object. All this file does to it is
  \<^verbatim>\<open>Bind\<close>, so its state is the sequence of bindings made so far.
\<close>

type_synonym analyzer = "(var \<times> range) list"

definition Bind :: "analyzer \<Rightarrow> var \<Rightarrow> range \<Rightarrow> analyzer" where
  "Bind a v r = a @ [(v, r)]"

text \<open>
  \<^verbatim>\<open>arith::DetectIterMap\<close>, \<^verbatim>\<open>Analyzer::Simplify\<close> and the placeholder variables that
  \<^verbatim>\<open>IndexMap::FromFunc\<close> creates are parameters of the model: \<open>NewVar H i\<close> is the
  \<open>i\<close>-th placeholder. So is what \<^verbatim>\<open>std::sort\<close> leaves to the library, the order of
  elements that the comparator does not tell apart: \<open>Rearrange H\<close> is the arrangement of
  the range from which the library's sort ends where a stable sort would.
\<close>

record host =
  DetectIterMap :: "prim_expr list \<Rightarrow> (var \<rightharpoonup> range) \<Rightarrow> prim_expr \<Rightarrow> bool \<Rightarrow> analyzer
                      \<Rightarrow> iter_sum_expr list"
  Simplify :: "analyzer \<Rightarrow> prim_expr \<Rightarrow> prim_expr"
  NewVar :: "nat \<Rightarrow> var"
  Rearrange :: "nat list \<Rightarrow> nat list"

definition Collect_exprs :: "host \<Rightarrow> prim_expr \<Rightarrow> (var \<rightharpoonup> range) \<Rightarrow> prim_expr \<Rightarrow> bool \<Rightarrow> analyzer
                         \<Rightarrow> error + SplitExpr list" where
  "Collect_exprs H index input_iters predicate require_bijective analyzer =
     (let iter_sum_exprs =
            DetectIterMap H [Simplify H analyzer index] input_iters predicate
              require_bijective analyzer
      in if iter_sum_exprs = [] then Inr []
         else if length iter_sum_exprs \<noteq> 1 then Inl (IterSumArity (length iter_sum_exprs))
         else (case iter_sum_exprs ! 0 of
                 IterSumExpr args base \<Rightarrow>
                   if length args = 0 then Inr []
                   else (case Visit_sum (iter_sum_exprs ! 0) \<lparr>failed = False, exprs = []\<rparr> of
                           Inl e \<Rightarrow> Inl e
                         | Inr collector \<Rightarrow>
                             if failed collector then Inr [] else Inr (exprs collector))))"

subsection \<open>SuggestIndexMap\<close>

record For =
  loop_var :: var
  min_for :: prim_expr
  extent_for :: prim_expr

record IndexMap =
  initial_indices :: "var list"
  final_indices :: "prim_expr list"

text \<open>
  Step 1. \<^verbatim>\<open>Map::Set\<close> overwrites the entry of a key, \<^verbatim>\<open>unordered_map::emplace\<close> keeps
  the entry a key already has.
\<close>

definition emplace :: "('k \<rightharpoonup> 'v) \<Rightarrow> 'k \<Rightarrow> 'v \<Rightarrow> ('k \<rightharpoonup> 'v)" where
  "emplace m k v = (case m k of None \<Rightarrow> m(k \<mapsto> v) | Some old \<Rightarrow> m)"

fun collect_loops :: "For list \<Rightarrow> nat \<Rightarrow> (var \<rightharpoonup> range) \<times> (var \<rightharpoonup> nat)
                        \<Rightarrow> (var \<rightharpoonup> range) \<times> (var \<rightharpoonup> nat)" where
  "collect_loops [] i (input_iters, var2id) = (input_iters, var2id)"
| "collect_loops (loop # loops) i (input_iters, var2id) =
     collect_loops loops (Suc i)
       (input_iters(loop_var loop \<mapsto> Range_FromMinExtent (min_for loop) (extent_for loop)),
        emplace var2id (loop_var loop) i)"

text \<open>
  Step 2. \<^verbatim>\<open>Array::operator[]\<close>, declared outside this file, checks its index and fails
  an assertion when the index is out of range. The loop \<^verbatim>\<open>for (int i = 0; i < ndim; ++i)\<close>
  of the functor runs over \<open>[0..<ndim]\<close>.
\<close>

definition array_get :: "'a list \<Rightarrow> nat \<Rightarrow> error + 'a" where
  "array_get xs i = (if i < length xs then Inr (xs ! i) else Inl (IndexError i (length xs)))"

fun flatten_loop :: "prim_expr list \<Rightarrow> prim_expr list \<Rightarrow> nat list \<Rightarrow> prim_expr
                       \<Rightarrow> error + prim_expr" where
  "flatten_loop strds indices [] flatten_index = Inr flatten_index"
| "flatten_loop strds indices (i # is) flatten_index =
     (case array_get strds i of
        Inl e \<Rightarrow> Inl e
      | Inr s \<Rightarrow>
          (case array_get indices i of
             Inl e \<Rightarrow> Inl e
           | Inr x \<Rightarrow> flatten_loop strds indices is (Add flatten_index (Mul s x))))"

definition f_flatten_index :: "nat \<Rightarrow> prim_expr list \<Rightarrow> prim_expr list \<Rightarrow> error + prim_expr" where
  "f_flatten_index ndim strds indices = flatten_loop strds indices [0..<ndim] (IntImm 0)"

text \<open>
  Step 4. The comparator of \<^verbatim>\<open>std::sort\<close>; \<^verbatim>\<open>var2id.at\<close> throws for a variable that is
  no key of the map.
\<close>

definition compare_split :: "(var \<rightharpoonup> nat) \<Rightarrow> SplitExpr list \<Rightarrow> nat \<Rightarrow> nat \<Rightarrow> error + bool" where
  "compare_split var2id split_exprs a' b' =
     (let a = split_exprs ! a'; b = split_exprs ! b' in
      case var2id (source a) of
        None \<Rightarrow> Inl (OutOfRange (source a))
      | Some a_var_id \<Rightarrow>
          (case var2id (source b) of
             None \<Rightarrow> Inl (OutOfRange (source b))
           | Some b_var_id \<Rightarrow>
               if a_var_id \<noteq> b_var_id then Inr (a_var_id < b_var_id)
               else Inr (lower_factor a > lower_factor b)))"

text \<open>
  \<^verbatim>\<open>std::sort\<close> promises a sorted permutation of the range and no order among elements
  that the comparator does not tell apart. It is modelled as a stable insertion sort
  (each element in turn moves left past the elements it is less than) of an arrangement
  of the range that the host chooses; an answer of the host that is no permutation of the
  range is not used. Every sorted permutation is reached, from itself as the arrangement
  (lemma \<open>sort_order_reaches\<close>). A range of one element is sorted without a call of the
  comparator, and in a longer range every element is compared at least once.
\<close>

fun sort_insert :: "(nat \<Rightarrow> nat \<Rightarrow> error + bool) \<Rightarrow> nat \<Rightarrow> nat list \<Rightarrow> error + nat list" where
  "sort_insert cmp x [] = Inr [x]"
| "sort_insert cmp x (y # ys) =
     (case cmp x y of
        Inl e \<Rightarrow> Inl e
      | Inr True \<Rightarrow> Inr (x # y # ys)
      | Inr False \<Rightarrow> (case sort_insert cmp x ys of Inl e \<Rightarrow> Inl e | Inr r \<Rightarrow> Inr (y # r)))"

fun sort_loop :: "(nat \<Rightarrow> nat \<Rightarrow> error + bool) \<Rightarrow> nat list \<Rightarrow> nat list \<Rightarrow> error + nat list" where
  "sort_loop cmp acc [] = Inr acc"
| "sort_loop cmp acc (x # xs) =
     (case sort_insert cmp x acc of Inl e \<Rightarrow> Inl e | Inr acc' \<Rightarrow> sort_loop cmp acc' xs)"

definition arrangement :: "host \<Rightarrow> nat \<Rightarrow> nat list" where
  "arrangement H n =
     (let xs = Rearrange H [0..<n] in if sort xs = [0..<n] then xs else [0..<n])"

definition sort_order :: "host \<Rightarrow> (var \<rightharpoonup> nat) \<Rightarrow> SplitExpr list \<Rightarrow> error + nat list" where
  "sort_order H var2id split_exprs =
     sort_loop (compare_split var2id split_exprs) [] (arrangement H (length split_exprs))"

text \<open>
  Step 5.1. The loop \<^verbatim>\<open>for (int i = ndim - 1; i >= 0; --i)\<close> runs over the split
  expressions from the last to the first: \<open>split_loop\<close> takes them reversed. Step 5.2
  reads \<^verbatim>\<open>split[order[i]]\<close> from vectors, unchecked; \<open>order\<close> is a permutation of the
  indices of \<open>split\<close> (lemma \<open>sort_order_sorted\<close>), so the reads are in range.
\<close>

text \<open>
  \<^verbatim>\<open>floormod(index, extent)\<close> and \<^verbatim>\<open>floordiv(index, extent)\<close> with an \<^verbatim>\<open>int64_t\<close> extent
  resolve to the overloads, declared outside this file, that take the divisor as \<^verbatim>\<open>int\<close>:
  the extent is converted to 32 bits, made a constant, and the operator fails an assertion
  when this constant is 0. Beyond that the operators may fold constants, which changes the
  form of an expression and not its value.
\<close>

definition narrow_int :: "int \<Rightarrow> int" where
  "narrow_int x = (x + 2147483648) mod 4294967296 - 2147483648"

definition floormod_int :: "prim_expr \<Rightarrow> int \<Rightarrow> error + prim_expr" where
  "floormod_int a b =
     (let b32 = narrow_int b in if b32 = 0 then Inl DivideByZero else Inr (FloorMod a (IntImm b32)))"

definition floordiv_int :: "prim_expr \<Rightarrow> int \<Rightarrow> error + prim_expr" where
  "floordiv_int a b =
     (let b32 = narrow_int b in if b32 = 0 then Inl DivideByZero else Inr (FloorDiv a (IntImm b32)))"

fun split_loop :: "(prim_expr \<Rightarrow> prim_expr) \<Rightarrow> SplitExpr list \<Rightarrow> prim_expr \<Rightarrow> prim_expr list
                     \<Rightarrow> error + prim_expr list" where
  "split_loop simplify [] index split = Inr split"
| "split_loop simplify (e # es) index split =
     (let index = simplify index in
      case floormod_int index (extent e) of
        Inl err \<Rightarrow> Inl err
      | Inr index_mod \<Rightarrow>
          (case floordiv_int index (extent e) of
             Inl err \<Rightarrow> Inl err
           | Inr index_div \<Rightarrow> split_loop simplify es index_div (split @ [simplify index_mod])))"

definition f_alter_layout :: "host \<Rightarrow> analyzer \<Rightarrow> nat \<Rightarrow> prim_expr list \<Rightarrow> SplitExpr list \<Rightarrow> nat list
                                \<Rightarrow> prim_expr list \<Rightarrow> var list \<Rightarrow> error + prim_expr list \<times> analyzer" where
  "f_alter_layout H analyzer ndim_buf strds split_exprs order shp indices =
     (if length indices \<noteq> length shp then Inl (IndicesArity (length indices) (length shp))
      else
        (let analyzer = foldl (\<lambda>a (v, s). Bind a v (Range_FromMinExtent (IntImm 0) s))
                          analyzer (zip indices shp)
         in case f_flatten_index ndim_buf strds (map VarNode indices) of
              Inl e \<Rightarrow> Inl e
            | Inr index \<Rightarrow>
                (let ndim = length split_exprs in
                 case split_loop (Simplify H analyzer) (rev split_exprs) index [] of
                   Inl e \<Rightarrow> Inl e
                 | Inr pushed \<Rightarrow>
                     (let split = rev pushed;
                          results = map (\<lambda>i. split ! (order ! i)) [0..<ndim]
                      in Inr (results, analyzer)))))"

text \<open>
  Modelled from the spec: \<^verbatim>\<open>IndexMap::FromFunc\<close> is defined outside this file. It does
  what the spec says of the remapping construction: "create one fresh placeholder
  coordinate per dimension of the original buffer shape", apply the function to them
  once, and keep the placeholders with "the output tuple of the remapping function".
\<close>

definition IndexMap_FromFunc :: "(nat \<Rightarrow> var) \<Rightarrow> nat
    \<Rightarrow> (var list \<Rightarrow> error + prim_expr list \<times> analyzer) \<Rightarrow> error + IndexMap \<times> analyzer" where
  "IndexMap_FromFunc new_var ndim func =
     (let initial = map new_var [0..<ndim] in
      case func initial of
        Inl e \<Rightarrow> Inl e
      | Inr (final, analyzer) \<Rightarrow>
          Inr (\<lparr>initial_indices = initial, final_indices = final\<rparr>, analyzer))"

text \<open>
  The result is the optional index map together with the analyzer as the call leaves it.
\<close>

definition SuggestIndexMap :: "host \<Rightarrow> buffer \<Rightarrow> prim_expr list \<Rightarrow> For list \<Rightarrow> prim_expr \<Rightarrow> analyzer
                                 \<Rightarrow> error + IndexMap option \<times> analyzer" where
  "SuggestIndexMap H buffer indices loops predicate analyzer =
     (let ndim = length (shape buffer);
          (input_iters, var2id) = collect_loops loops 0 (Map.empty, Map.empty)
      in case GetStrides buffer of
           Inl e \<Rightarrow> Inl e
         | Inr strds \<Rightarrow>
             (case f_flatten_index ndim strds indices of
                Inl e \<Rightarrow> Inl e
              | Inr index \<Rightarrow>
                  (case Collect_exprs H index input_iters predicate False analyzer of
                     Inl e \<Rightarrow> Inl e
                   | Inr split_exprs \<Rightarrow>
                       if split_exprs = [] then Inr (None, analyzer)
                       else
                         (case sort_order H var2id split_exprs of
                            Inl e \<Rightarrow> Inl e
                          | Inr order \<Rightarrow>
                              (case IndexMap_FromFunc (NewVar H) ndim
                                      (f_alter_layout H analyzer ndim strds split_exprs order
                                         (shape buffer)) of
                                 Inl e \<Rightarrow> Inl e
                               | Inr (m, analyzer') \<Rightarrow> Inr (Some m, analyzer'))))))"

subsection \<open>The notions of the specification\<close>

subsubsection \<open>The sum-of-splits tree\<close>

text \<open>
  The split nodes that wrap a variable, in the order in which a depth-first walk from left
  to right meets them, each with its lower factor and its extent; the nesting is
  forgotten.
\<close>

type_synonym leaf = "var \<times> prim_expr \<times> prim_expr"

fun leaves_split :: "iter_split_expr \<Rightarrow> leaf list"
  and leaves_sum :: "iter_sum_expr \<Rightarrow> leaf list"
  and leaves_args :: "iter_split_expr list \<Rightarrow> leaf list"
where
  "leaves_split (IterSplitExpr (IterMark (VarNode v) mext) lf ext sc) = [(v, lf, ext)]"
| "leaves_split (IterSplitExpr (IterMark (IterSumExprNode s) mext) lf ext sc) = leaves_sum s"
| "leaves_split (IterSplitExpr (IterMark src mext) lf ext sc) = []"
| "leaves_sum (IterSumExpr args base) = leaves_args args"
| "leaves_args [] = []"
| "leaves_args (a # as) = leaves_split a @ leaves_args as"

text \<open>The \<^verbatim>\<open>SplitExpr\<close> of a leaf whose factors are integer constants.\<close>

definition component_of :: "leaf \<Rightarrow> SplitExpr option" where
  "component_of l =
     (case l of (v, lf, ext) \<Rightarrow>
        (case as_const_int lf of
           None \<Rightarrow> None
         | Some lower \<Rightarrow>
             (case as_const_int ext of
                None \<Rightarrow> None
              | Some ex \<Rightarrow> Some \<lparr>source = v, lower_factor = lower, extent = ex\<rparr>)))"

text \<open>The leaf that a \<^verbatim>\<open>SplitExpr\<close> came from.\<close>

definition leaf_of :: "SplitExpr \<Rightarrow> leaf" where
  "leaf_of e = (source e, IntImm (lower_factor e), IntImm (extent e))"

text \<open>The collector after a walk that met the given leaves.\<close>

definition visited :: "leaf list \<Rightarrow> collector \<Rightarrow> collector" where
  "visited ls c = c\<lparr>failed := failed c \<or> (\<exists>l \<in> set ls. component_of l = None),
                    exprs := exprs c @ List.map_filter component_of ls\<rparr>"

text \<open>Some split node of the tree wraps neither a variable nor a nested sum.\<close>

fun unexpected_split :: "iter_split_expr \<Rightarrow> bool"
  and unexpected_sum :: "iter_sum_expr \<Rightarrow> bool"
  and unexpected_args :: "iter_split_expr list \<Rightarrow> bool"
where
  "unexpected_split (IterSplitExpr (IterMark (VarNode v) mext) lf ext sc) = False"
| "unexpected_split (IterSplitExpr (IterMark (IterSumExprNode s) mext) lf ext sc) = unexpected_sum s"
| "unexpected_split (IterSplitExpr (IterMark src mext) lf ext sc) = True"
| "unexpected_sum (IterSumExpr args base) = unexpected_args args"
| "unexpected_args [] = False"
| "unexpected_args (a # as) = (unexpected_split a \<or> unexpected_args as)"

text \<open>
  Some split node of the tree, be it around a variable or around a nested sum, has a lower
  factor or an extent that is no integer constant.
\<close>

fun dynamic_split :: "iter_split_expr \<Rightarrow> bool"
  and dynamic_sum :: "iter_sum_expr \<Rightarrow> bool"
  and dynamic_args :: "iter_split_expr list \<Rightarrow> bool"
where
  "dynamic_split (IterSplitExpr (IterMark (IterSumExprNode s) mext) lf ext sc) =
     (as_const_int lf = None \<or> as_const_int ext = None \<or> dynamic_sum s)"
| "dynamic_split (IterSplitExpr (IterMark src mext) lf ext sc) =
     (as_const_int lf = None \<or> as_const_int ext = None)"
| "dynamic_sum (IterSumExpr args base) = dynamic_args args"
| "dynamic_args [] = False"
| "dynamic_args (a # as) = (dynamic_split a \<or> dynamic_args as)"

subsubsection \<open>The canonical order\<close>

text \<open>
  The nesting position of a variable: the index of the first loop of the sequence that
  has it as its loop variable.
\<close>

fun position_of :: "var \<Rightarrow> For list \<Rightarrow> nat option" where
  "position_of v [] = None"
| "position_of v (loop # loops) =
     (if loop_var loop = v then Some 0 else map_option Suc (position_of v loops))"

text \<open>
  The key order on two split expressions: the variable of the first is at an earlier
  position, or both are at the same position and the lower factor of the first is not
  smaller. It is defined on the map from variables to positions, and says nothing of
  a variable that the map does not have.
\<close>

definition key_le :: "(var \<rightharpoonup> nat) \<Rightarrow> SplitExpr \<Rightarrow> SplitExpr \<Rightarrow> bool" where
  "key_le var2id a b =
     (case var2id (source a) of
        None \<Rightarrow> False
      | Some i \<Rightarrow>
          (case var2id (source b) of
             None \<Rightarrow> False
           | Some j \<Rightarrow> i < j \<or> (i = j \<and> lower_factor b \<le> lower_factor a)))"

subsubsection \<open>Digits\<close>





subsection \<open>Example inputs\<close>

text \<open>
  A host whose detection reports the given decompositions whatever it is asked, whose
  simplifier returns its argument, whose placeholders are named \<open>i\<close>, \<open>ii\<close>, ... and
  whose sort is stable.
\<close>

definition host_of :: "iter_sum_expr list \<Rightarrow> host" where
  "host_of ds = \<lparr>DetectIterMap = (\<lambda>es input_iters predicate rb analyzer. ds),
                 Simplify = (\<lambda>analyzer e. e),
                 NewVar = (\<lambda>i. replicate (Suc i) (CHR ''i'')),
                 Rearrange = (\<lambda>xs. xs)\<rparr>"

text \<open>A split node around a variable, with constant factors.\<close>

definition leaf_split :: "var \<Rightarrow> int \<Rightarrow> int \<Rightarrow> int \<Rightarrow> iter_split_expr" where
  "leaf_split v lower ex sc =
     IterSplitExpr (IterMark (VarNode v) (IntImm (lower * ex))) (IntImm lower) (IntImm ex) (IntImm sc)"

definition buffer0 :: buffer where
  "buffer0 = \<lparr>shape = [], strides = []\<rparr>"

definition buffer32 :: buffer where
  "buffer32 = \<lparr>shape = [IntImm 32], strides = []\<rparr>"

definition index_ko_ki :: prim_expr where
  "index_ko_ki = Add (Mul (VarNode ''ko'') (IntImm 8)) (VarNode ''ki'')"

definition loops_ko_ki :: "For list" where
  "loops_ko_ki = [\<lparr>loop_var = ''ko'', min_for = IntImm 0, extent_for = IntImm 4\<rparr>,
                  \<lparr>loop_var = ''ki'', min_for = IntImm 0, extent_for = IntImm 8\<rparr>]"


definition sum_ko_ki :: iter_sum_expr where
  "sum_ko_ki = IterSumExpr [leaf_split ''ko'' 1 4 8, leaf_split ''ki'' 1 8 1] (IntImm 0)"

definition splits_ko_ki :: "SplitExpr list" where
  "splits_ko_ki = [\<lparr>source = ''ko'', lower_factor = 1, extent = 4\<rparr>,
                   \<lparr>source = ''ki'', lower_factor = 1, extent = 8\<rparr>]"

definition splits_ki_ko_ko :: "SplitExpr list" where
  "splits_ki_ko_ko = [\<lparr>source = ''ki'', lower_factor = 1, extent = 8\<rparr>,
                      \<lparr>source = ''ko'', lower_factor = 1, extent = 2\<rparr>,
                      \<lparr>source = ''ko'', lower_factor = 2, extent = 2\<rparr>]"

definition nested_example :: iter_sum_expr where
  "nested_example =
     IterSumExpr
       [IterSplitExpr
          (IterMark (IterSumExprNode (IterSumExpr [leaf_split ''ko'' 1 4 8, leaf_split ''ki'' 1 8 1]
                                        (IntImm 0)))
             (IntImm 32))
          (IntImm 1) (IntImm 32) (IntImm 16),
        leaf_split ''j'' 1 16 1]
       (IntImm 0)"

definition unexpected_example :: iter_sum_expr where
  "unexpected_example =
     IterSumExpr
       [leaf_split ''ko'' 1 4 8,
        IterSplitExpr (IterMark (Mul (VarNode ''ki'') (IntImm 2)) (IntImm 16))
          (IntImm 1) (IntImm 8) (IntImm 1)]
       (IntImm 0)"

definition wrapped_dynamic_example :: iter_sum_expr where
  "wrapped_dynamic_example =
     IterSumExpr
       [IterSplitExpr (IterMark (IterSumExprNode sum_ko_ki) (IntImm 32))
          (VarNode ''n'') (IntImm 32) (IntImm 1)]
       (IntImm 0)"

definition dynamic_then_unexpected_example :: iter_sum_expr where
  "dynamic_then_unexpected_example =
     IterSumExpr
       [IterSplitExpr (IterMark (VarNode ''ko'') (IntImm 4)) (IntImm 1) (VarNode ''n'') (IntImm 8),
        IterSplitExpr (IterMark (Mul (VarNode ''ki'') (IntImm 2)) (IntImm 16))
          (IntImm 1) (IntImm 8) (IntImm 1)]
       (IntImm 0)"

definition dynamic_leaf_example :: iter_sum_expr where
  "dynamic_leaf_example =
     IterSumExpr
       [IterSplitExpr (IterMark (VarNode ''ko'') (IntImm 4)) (IntImm 1) (VarNode ''n'') (IntImm 8),
        leaf_split ''ki'' 1 8 1]
       (IntImm 0)"

text \<open>
  The two digits of the flattened index of the placeholder \<open>i\<close> for the extents 4 and 8, as
  expressions.
\<close>

definition digits_ko_ki :: "prim_expr list" where
  "digits_ko_ki =
     [FloorMod (FloorDiv (Add (IntImm 0) (Mul (IntImm 1) (VarNode ''i''))) (IntImm 8)) (IntImm 4),
      FloorMod (Add (IntImm 0) (Mul (IntImm 1) (VarNode ''i''))) (IntImm 8)]"

definition map_ko_ki :: IndexMap where
  "map_ko_ki = \<lparr>initial_indices = [''i''], final_indices = digits_ko_ki\<rparr>"











section \<open>Properties\<close>

subsection \<open>Stride derivation\<close>

lemma length_strides_loop: "length (strides_loop shp i st arr) = length arr"
  by (induction i arbitrary: st arr) simp_all

lemma strides_loop_above:
  "i \<le> j \<Longrightarrow> strides_loop shp i st arr ! j = arr ! j"
  by (induction i arbitrary: st arr) simp_all

lemma strides_loop_top:
  "i < length arr \<Longrightarrow> strides_loop shp (Suc i) st arr ! i = st"
  by (simp add: strides_loop_above)

lemma strides_loop_step:
  "Suc j < i \<Longrightarrow> i \<le> length arr \<Longrightarrow>
   strides_loop shp i st arr ! j = Mul (strides_loop shp i st arr ! Suc j) (shp ! Suc j)"
proof (induction i arbitrary: st arr)
  case 0
  then show ?case by simp
next
  case (Suc i)
  show ?case
  proof (cases "Suc j = i")
    case True
    have a: "strides_loop shp (Suc j) (Mul st (shp ! Suc j)) (arr[Suc j := st]) ! j
               = Mul st (shp ! Suc j)"
      using Suc.prems True by (intro strides_loop_top) simp
    have b: "strides_loop shp (Suc j) (Mul st (shp ! Suc j)) (arr[Suc j := st]) ! Suc j = st"
      using Suc.prems True by (simp add: strides_loop_above)
    from a b True show ?thesis by simp
  next
    case False
    with Suc.prems have "Suc j < i" "i \<le> length (arr[i := st])" by simp_all
    from Suc.IH [OF this] show ?thesis by simp
  qed
qed

lemma GetStrides_derived:
  "strides b = [] \<Longrightarrow> shape b \<noteq> [] \<Longrightarrow>
   GetStrides b = Inr (strides_loop (shape b) (length (shape b)) (IntImm 1)
                         (replicate (length (shape b)) NullExpr))"
  by (simp add: GetStrides_def Let_def)

lemma strides_loop_last:
  "0 < n \<Longrightarrow> n \<le> length arr \<Longrightarrow> strides_loop shp n st arr ! (n - 1) = st"
  by (cases n) (simp_all add: strides_loop_above)

text \<open>
  Claim C5. A buffer without explicit strides and of rank \<open>n \<ge> 1\<close> gets \<open>n\<close> strides, the
  last one the constant 1 and each other one the product of the stride and the extent of
  the next dimension; for the shape \<open>[a, b, c]\<close> these are the expressions
  \<open>(1 * c) * b\<close>, \<open>1 * c\<close> and \<open>1\<close>, whose values are \<open>b * c\<close>, \<open>c\<close> and \<open>1\<close>. Rank 0
  gives the empty sequence, and explicit strides of the length of the shape are returned
  as they are.
\<close>

theorem GetStrides_row_major:
  "(strides b1 = [] \<and> 1 \<le> length (shape b1) \<longrightarrow>
      (\<exists>s. GetStrides b1 = Inr s \<and> length s = length (shape b1) \<and>
           s ! (length (shape b1) - 1) = IntImm 1 \<and>
           (\<forall>i. Suc i < length (shape b1) \<longrightarrow> s ! i = Mul (s ! Suc i) (shape b1 ! Suc i))))
   \<and> GetStrides \<lparr>shape = [a, b, c], strides = []\<rparr>
        = Inr [Mul (Mul (IntImm 1) c) b, Mul (IntImm 1) c, IntImm 1]
   \<and> (eval env b = Some y \<and> eval env c = Some z \<longrightarrow>
        map (eval env) [Mul (Mul (IntImm 1) c) b, Mul (IntImm 1) c, IntImm 1]
          = [Some (y * z), Some z, Some 1])
   \<and> (shape b2 = [] \<and> strides b2 = [] \<longrightarrow> GetStrides b2 = Inr [])
   \<and> (strides b3 \<noteq> [] \<and> length (strides b3) = length (shape b3) \<longrightarrow>
        GetStrides b3 = Inr (strides b3))"
proof (intro conjI impI)
  assume h: "strides b1 = [] \<and> 1 \<le> length (shape b1)"
  let ?n = "length (shape b1)"
  let ?s = "strides_loop (shape b1) ?n (IntImm 1) (replicate ?n NullExpr)"
  from h have ne: "shape b1 \<noteq> []" by (cases "shape b1") auto
  have 1: "GetStrides b1 = Inr ?s" using h ne by (simp add: GetStrides_derived)
  have 2: "length ?s = ?n" by (simp add: length_strides_loop)
  have 3: "?s ! (?n - 1) = IntImm 1" using ne by (intro strides_loop_last) simp_all
  have 4: "\<forall>i. Suc i < ?n \<longrightarrow> ?s ! i = Mul (?s ! Suc i) (shape b1 ! Suc i)"
    by (intro allI impI strides_loop_step) simp_all
  from 1 2 3 4 show "\<exists>s. GetStrides b1 = Inr s \<and> length s = ?n \<and> s ! (?n - 1) = IntImm 1 \<and>
           (\<forall>i. Suc i < ?n \<longrightarrow> s ! i = Mul (s ! Suc i) (shape b1 ! Suc i))"
    by blast
next
  show "GetStrides \<lparr>shape = [a, b, c], strides = []\<rparr>
        = Inr [Mul (Mul (IntImm 1) c) b, Mul (IntImm 1) c, IntImm 1]"
    by (simp add: GetStrides_def numeral_3_eq_3)
next
  assume "eval env b = Some y \<and> eval env c = Some z"
  then show "map (eval env) [Mul (Mul (IntImm 1) c) b, Mul (IntImm 1) c, IntImm 1]
          = [Some (y * z), Some z, Some 1]"
    by (simp add: mult.commute)
next
  assume "shape b2 = [] \<and> strides b2 = []"
  then show "GetStrides b2 = Inr []" by (simp add: GetStrides_def)
next
  assume "strides b3 \<noteq> [] \<and> length (strides b3) = length (shape b3)"
  then show "GetStrides b3 = Inr (strides b3)" by (simp add: GetStrides_def)
qed

theorem GetStrides_row_major_witness:
  "GetStrides \<lparr>shape = [IntImm 4, IntImm 8], strides = []\<rparr> = Inr [Mul (IntImm 1) (IntImm 8), IntImm 1]
   \<and> GetStrides \<lparr>shape = [VarNode ''a'', VarNode ''b'', VarNode ''c''], strides = []\<rparr>
        = Inr [Mul (Mul (IntImm 1) (VarNode ''c'')) (VarNode ''b''), Mul (IntImm 1) (VarNode ''c''), IntImm 1]
   \<and> map (eval (\<lambda>x. if x = ''b'' then 5 else 7))
        [Mul (Mul (IntImm 1) (VarNode ''c'')) (VarNode ''b''), Mul (IntImm 1) (VarNode ''c''), IntImm 1]
        = [Some 35, Some 7, Some 1]
   \<and> GetStrides \<lparr>shape = [], strides = []\<rparr> = Inr []
   \<and> GetStrides \<lparr>shape = [IntImm 4, IntImm 8], strides = [IntImm 16, IntImm 2]\<rparr>
        = Inr [IntImm 16, IntImm 2]"
  using GetStrides_row_major [of "\<lparr>shape = [IntImm 4, IntImm 8], strides = []\<rparr>"
      "VarNode ''a''" "VarNode ''b''" "VarNode ''c''" "\<lambda>x. if x = ''b'' then 5 else 7" 5 7
      "\<lparr>shape = [], strides = []\<rparr>"
      "\<lparr>shape = [IntImm 4, IntImm 8], strides = [IntImm 16, IntImm 2]\<rparr>"]
  apply simp
  apply (elim conjE exE)
  subgoal for s
    apply (cases s; simp)
    subgoal for x xs
      apply (cases xs; simp)
      done
    done
  done

subsection \<open>The walk over the sum-of-splits tree\<close>

lemma visited_Nil: "visited [] c = c"
  by (simp add: visited_def map_filter_simps)

lemma visited_append: "visited (xs @ ys) c = visited ys (visited xs c)"
  by (simp add: visited_def map_filter_def bex_Un disj_assoc)

lemma visited_single:
  "visited [(v, lf, ext)] c =
     (case as_const_int lf of
        None \<Rightarrow> c\<lparr>failed := True\<rparr>
      | Some lower \<Rightarrow>
          (case as_const_int ext of
             None \<Rightarrow> c\<lparr>failed := True\<rparr>
           | Some ex \<Rightarrow> c\<lparr>exprs := exprs c @ [\<lparr>source = v, lower_factor = lower, extent = ex\<rparr>]\<rparr>))"
  by (auto simp: visited_def component_of_def map_filter_simps split: option.splits)

lemma Visit_expected:
  "\<not> unexpected_split a \<Longrightarrow> Visit_split a c = Inr (visited (leaves_split a) c)"
  "\<not> unexpected_sum s \<Longrightarrow> Visit_sum s c = Inr (visited (leaves_sum s) c)"
  "\<not> unexpected_args as \<Longrightarrow> Visit_args as c = Inr (visited (leaves_args as) c)"
  by (induction a c and s c and as c rule: Visit_split_Visit_sum_Visit_args.induct)
     (simp_all add: visited_Nil visited_append visited_single split: option.splits)

lemma Visit_unexpected:
  "unexpected_split a \<Longrightarrow> \<exists>src. Visit_split a c = Inl (UnexpectedType src)"
  "unexpected_sum s \<Longrightarrow> \<exists>src. Visit_sum s c = Inl (UnexpectedType src)"
  "unexpected_args as \<Longrightarrow> \<exists>src. Visit_args as c = Inl (UnexpectedType src)"
proof (induction a c and s c and as c rule: Visit_split_Visit_sum_Visit_args.induct)
  case (6 a as c)
  show ?case
  proof (cases "unexpected_split a")
    case True
    with 6 show ?thesis by auto
  next
    case False
    with 6 show ?thesis by (simp add: Visit_expected)
  qed
qed simp_all

lemma Visit_sum_Inr:
  "Visit_sum s c = Inr c' \<Longrightarrow> \<not> unexpected_sum s \<and> c' = visited (leaves_sum s) c"
  using Visit_unexpected(2) [of s c] Visit_expected(2) [of s c] by (cases "unexpected_sum s") auto

lemma Collect_none:
  "DetectIterMap H [Simplify H analyzer index] input_iters predicate rb analyzer = [] \<Longrightarrow>
   Collect_exprs H index input_iters predicate rb analyzer = Inr []"
  by (simp add: Collect_exprs_def)

lemma Collect_many:
  assumes "DetectIterMap H [Simplify H analyzer index] input_iters predicate rb analyzer = ds"
    and "ds \<noteq> []" and "length ds \<noteq> 1"
  shows "Collect_exprs H index input_iters predicate rb analyzer = Inl (IterSumArity (length ds))"
  using assms by (simp add: Collect_exprs_def)

lemma Collect_unexpected:
  assumes "DetectIterMap H [Simplify H analyzer index] input_iters predicate rb analyzer = [s]"
    and "unexpected_sum s"
  shows "\<exists>src. Collect_exprs H index input_iters predicate rb analyzer = Inl (UnexpectedType src)"
proof -
  obtain args base where s: "s = IterSumExpr args base" by (cases s)
  with assms(2) have ne: "args \<noteq> []" by auto
  from Visit_unexpected(2) [OF assms(2)] obtain src
    where "Visit_sum s \<lparr>failed = False, exprs = []\<rparr> = Inl (UnexpectedType src)" by blast
  with assms(1) s ne show ?thesis by (simp add: Collect_exprs_def)
qed

lemma Collect_expected:
  assumes "DetectIterMap H [Simplify H analyzer index] input_iters predicate rb analyzer = [s]"
    and "\<not> unexpected_sum s"
  shows "Collect_exprs H index input_iters predicate rb analyzer =
           Inr (if \<exists>l \<in> set (leaves_sum s). component_of l = None then []
                else List.map_filter component_of (leaves_sum s))"
proof -
  obtain args base where s: "s = IterSumExpr args base" by (cases s)
  show ?thesis
  proof (cases "args = []")
    case True
    with assms(1) s show ?thesis by (simp add: Collect_exprs_def map_filter_simps)
  next
    case False
    with assms s show ?thesis
      by (auto simp add: Collect_exprs_def Visit_expected(2) visited_def simp del: Visit_sum.simps leaves_sum.simps)
  qed
qed

lemma SuggestIndexMap_after_flatten:
  assumes "GetStrides buffer = Inr strds"
    and "f_flatten_index (length (shape buffer)) strds indices = Inr index"
  shows "SuggestIndexMap H buffer indices loops predicate analyzer =
     (case Collect_exprs H index (fst (collect_loops loops 0 (Map.empty, Map.empty))) predicate False analyzer of
        Inl e \<Rightarrow> Inl e
      | Inr split_exprs \<Rightarrow>
          if split_exprs = [] then Inr (None, analyzer)
          else
            (case sort_order H (snd (collect_loops loops 0 (Map.empty, Map.empty))) split_exprs of
               Inl e \<Rightarrow> Inl e
             | Inr order \<Rightarrow>
                 (case IndexMap_FromFunc (NewVar H) (length (shape buffer))
                         (f_alter_layout H analyzer (length (shape buffer)) strds split_exprs order
                            (shape buffer)) of
                    Inl e \<Rightarrow> Inl e
                  | Inr (m, analyzer') \<Rightarrow> Inr (Some m, analyzer'))))"
  using assms by (simp add: SuggestIndexMap_def Let_def case_prod_beta)

lemma SuggestIndexMap_Collect_Inl:
  assumes "GetStrides buffer = Inr strds"
    and "f_flatten_index (length (shape buffer)) strds indices = Inr index"
    and "Collect_exprs H index (fst (collect_loops loops 0 (Map.empty, Map.empty))) predicate False analyzer = Inl e"
  shows "SuggestIndexMap H buffer indices loops predicate analyzer = Inl e"
  using assms by (simp add: SuggestIndexMap_after_flatten)

lemma SuggestIndexMap_Collect_Nil:
  assumes "GetStrides buffer = Inr strds"
    and "f_flatten_index (length (shape buffer)) strds indices = Inr index"
    and "Collect_exprs H index (fst (collect_loops loops 0 (Map.empty, Map.empty))) predicate False analyzer = Inr []"
  shows "SuggestIndexMap H buffer indices loops predicate analyzer = Inr (None, analyzer)"
  using assms by (simp add: SuggestIndexMap_after_flatten)

lemma as_const_int_Some: "as_const_int e = Some v \<Longrightarrow> e = IntImm v"
  by (cases e) simp_all

lemma component_of_back: "component_of l = Some e \<Longrightarrow> leaf_of e = l"
  by (cases l) (auto simp: component_of_def leaf_of_def split: option.splits dest: as_const_int_Some)

lemma map_filter_back:
  "\<forall>l \<in> set ls. component_of l \<noteq> None \<Longrightarrow> map leaf_of (List.map_filter component_of ls) = ls"
  by (induction ls) (auto simp: map_filter_simps component_of_back split: option.splits)

text \<open>
  Claim C8. A walk that returns has appended to the collected list the components of the
  variable nodes of the tree in the order of a depth-first walk, those under a nested sum
  at the place of the node that wraps the sum; and a non-empty result of the extraction
  is exactly this sequence of leaves of the one decomposition detected.
\<close>

theorem Visit_encounter_order:
  "(Visit_sum s c = Inr c' \<longrightarrow>
      exprs c' = exprs c @ List.map_filter component_of (leaves_sum s))
   \<and> (Collect_exprs H index input_iters predicate rb analyzer = Inr r \<and> r \<noteq> [] \<longrightarrow>
      (\<exists>s'. DetectIterMap H [Simplify H analyzer index] input_iters predicate rb analyzer = [s']
          \<and> map leaf_of r = leaves_sum s'))"
proof (intro conjI impI)
  assume "Visit_sum s c = Inr c'"
  from Visit_sum_Inr [OF this] show "exprs c' = exprs c @ List.map_filter component_of (leaves_sum s)"
    by (simp add: visited_def)
next
  let ?ds = "DetectIterMap H [Simplify H analyzer index] input_iters predicate rb analyzer"
  assume h: "Collect_exprs H index input_iters predicate rb analyzer = Inr r \<and> r \<noteq> []"
  have ne: "?ds \<noteq> []" using h by (auto simp: Collect_none)
  have one: "length ?ds = 1" using h ne Collect_many [OF refl ne] by auto
  then obtain s' where ds: "?ds = [s']" by (cases ?ds) auto
  have ex: "\<not> unexpected_sum s'" using Collect_unexpected [OF ds] h by auto
  from Collect_expected [OF ds ex] h
  have "\<forall>l \<in> set (leaves_sum s'). component_of l \<noteq> None"
    and "r = List.map_filter component_of (leaves_sum s')"
    by (auto split: if_splits)
  then have "map leaf_of r = leaves_sum s'" by (simp add: map_filter_back)
  with ds show "\<exists>s'. ?ds = [s'] \<and> map leaf_of r = leaves_sum s'" by blast
qed

theorem Visit_encounter_order_witness:
  "Visit_sum nested_example \<lparr>failed = False, exprs = []\<rparr> =
     Inr \<lparr>failed = False,
          exprs = [\<lparr>source = ''ko'', lower_factor = 1, extent = 4\<rparr>,
                   \<lparr>source = ''ki'', lower_factor = 1, extent = 8\<rparr>,
                   \<lparr>source = ''j'', lower_factor = 1, extent = 16\<rparr>]\<rparr>
   \<and> Collect_exprs (host_of [nested_example]) (IntImm 0) Map.empty (IntImm 1) False [] =
       Inr [\<lparr>source = ''ko'', lower_factor = 1, extent = 4\<rparr>,
            \<lparr>source = ''ki'', lower_factor = 1, extent = 8\<rparr>,
            \<lparr>source = ''j'', lower_factor = 1, extent = 16\<rparr>]
   \<and> leaves_sum nested_example =
       [(''ko'', IntImm 1, IntImm 4), (''ki'', IntImm 1, IntImm 8), (''j'', IntImm 1, IntImm 16)]"
proof -
  let ?c = "\<lparr>failed = False,
          exprs = [\<lparr>source = ''ko'', lower_factor = 1, extent = 4\<rparr>,
                   \<lparr>source = ''ki'', lower_factor = 1, extent = 8\<rparr>,
                   \<lparr>source = ''j'', lower_factor = 1, extent = 16\<rparr>]\<rparr>"
  have v: "Visit_sum nested_example \<lparr>failed = False, exprs = []\<rparr> = Inr ?c"
    by (simp add: nested_example_def leaf_split_def)
  have c: "Collect_exprs (host_of [nested_example]) (IntImm 0) Map.empty (IntImm 1) False [] =
             Inr (exprs ?c)"
    using v by (simp add: Collect_exprs_def host_of_def nested_example_def leaf_split_def)
  have l: "leaves_sum nested_example =
       [(''ko'', IntImm 1, IntImm 4), (''ki'', IntImm 1, IntImm 8), (''j'', IntImm 1, IntImm 16)]"
    by (simp add: nested_example_def leaf_split_def)
  from Visit_encounter_order [of nested_example "\<lparr>failed = False, exprs = []\<rparr>" ?c
      "host_of [nested_example]" "IntImm 0" Map.empty "IntImm 1" False "[]" "exprs ?c"] v c l
  show ?thesis by simp
qed

lemma GetStrides_buffer32: "GetStrides buffer32 = Inr [IntImm 1]"
  by (simp add: GetStrides_def buffer32_def)

lemma flatten_buffer32:
  "f_flatten_index (length (shape buffer32)) [IntImm 1] (x # xs) =
     Inr (Add (IntImm 0) (Mul (IntImm 1) x))"
  by (simp add: f_flatten_index_def buffer32_def array_get_def)

text \<open>
  Claim C9. If some split node of the tree wraps neither a variable nor a nested sum, the
  walk ends in the failed assertion "Unexpected type", and so do the extraction and
  \<^verbatim>\<open>SuggestIndexMap\<close> when this tree is the one decomposition detected.
\<close>

theorem unexpected_source_aborts:
  "unexpected_sum s \<longrightarrow>
     (\<exists>src. Visit_sum s c = Inl (UnexpectedType src))
     \<and> (DetectIterMap H [Simplify H analyzer index] input_iters predicate rb analyzer = [s] \<longrightarrow>
          (\<exists>src. Collect_exprs H index input_iters predicate rb analyzer = Inl (UnexpectedType src)))
     \<and> (GetStrides buffer = Inr strds \<and>
          f_flatten_index (length (shape buffer)) strds indices = Inr index' \<and>
          DetectIterMap H [Simplify H analyzer index']
            (fst (collect_loops loops 0 (Map.empty, Map.empty))) predicate False analyzer = [s] \<longrightarrow>
          (\<exists>src. SuggestIndexMap H buffer indices loops predicate analyzer = Inl (UnexpectedType src)))"
proof (intro impI conjI)
  assume u: "unexpected_sum s"
  from Visit_unexpected(2) [OF u] show "\<exists>src. Visit_sum s c = Inl (UnexpectedType src)" .
  {
    assume "DetectIterMap H [Simplify H analyzer index] input_iters predicate rb analyzer = [s]"
    from Collect_unexpected [OF this u]
    show "\<exists>src. Collect_exprs H index input_iters predicate rb analyzer = Inl (UnexpectedType src)" .
  }
  {
    assume h: "GetStrides buffer = Inr strds \<and>
          f_flatten_index (length (shape buffer)) strds indices = Inr index' \<and>
          DetectIterMap H [Simplify H analyzer index']
            (fst (collect_loops loops 0 (Map.empty, Map.empty))) predicate False analyzer = [s]"
    then obtain src where "Collect_exprs H index'
        (fst (collect_loops loops 0 (Map.empty, Map.empty))) predicate False analyzer
          = Inl (UnexpectedType src)"
      using Collect_unexpected [OF _ u] by blast
    with h have "SuggestIndexMap H buffer indices loops predicate analyzer = Inl (UnexpectedType src)"
      by (intro SuggestIndexMap_Collect_Inl) auto
    then show "\<exists>src. SuggestIndexMap H buffer indices loops predicate analyzer
                  = Inl (UnexpectedType src)" ..
  }
qed

theorem unexpected_source_aborts_witness:
  "unexpected_sum unexpected_example
   \<and> Visit_sum unexpected_example \<lparr>failed = False, exprs = []\<rparr>
        = Inl (UnexpectedType (Mul (VarNode ''ki'') (IntImm 2)))
   \<and> Collect_exprs (host_of [unexpected_example]) index_ko_ki Map.empty (IntImm 1) False []
        = Inl (UnexpectedType (Mul (VarNode ''ki'') (IntImm 2)))
   \<and> SuggestIndexMap (host_of [unexpected_example]) buffer32 [index_ko_ki] loops_ko_ki (IntImm 1) []
        = Inl (UnexpectedType (Mul (VarNode ''ki'') (IntImm 2)))"
proof -
  have u: "unexpected_sum unexpected_example"
    by (simp add: unexpected_example_def leaf_split_def)
  have d: "DetectIterMap (host_of [unexpected_example]) es it p rb a = [unexpected_example]"
    for es it p rb a by (simp add: host_of_def)
  have v: "Visit_sum unexpected_example c = Inl (UnexpectedType (Mul (VarNode ''ki'') (IntImm 2)))"
    for c by (simp add: unexpected_example_def leaf_split_def)
  have c: "Collect_exprs (host_of [unexpected_example]) i it p rb a
             = Inl (UnexpectedType (Mul (VarNode ''ki'') (IntImm 2)))" for i it p rb a
    using v by (simp add: Collect_exprs_def host_of_def unexpected_example_def)
  have s: "SuggestIndexMap (host_of [unexpected_example]) buffer32 [index_ko_ki] loops_ko_ki (IntImm 1) []
             = Inl (UnexpectedType (Mul (VarNode ''ki'') (IntImm 2)))"
    by (rule SuggestIndexMap_Collect_Inl [OF GetStrides_buffer32 flatten_buffer32 c])
  from unexpected_source_aborts [of unexpected_example "\<lparr>failed = False, exprs = []\<rparr>"
      "host_of [unexpected_example]" "[]" index_ko_ki Map.empty "IntImm 1" False
      buffer32 "[IntImm 1]" "[index_ko_ki]" "Add (IntImm 0) (Mul (IntImm 1) index_ko_ki)"
      loops_ko_ki] u d GetStrides_buffer32 flatten_buffer32 [of index_ko_ki "[]"] v c s
  show ?thesis by simp
qed

text \<open>
  Claim C10. A non-empty list of decompositions with other than one entry fails the
  assertion on the size of the list, in the extraction and so in \<^verbatim>\<open>SuggestIndexMap\<close>.
\<close>

theorem several_decompositions_abort:
  "DetectIterMap H [Simplify H analyzer index] input_iters predicate rb analyzer = ds \<and>
   ds \<noteq> [] \<and> length ds \<noteq> 1 \<longrightarrow>
     Collect_exprs H index input_iters predicate rb analyzer = Inl (IterSumArity (length ds))
     \<and> (GetStrides buffer = Inr strds \<and>
          f_flatten_index (length (shape buffer)) strds indices = Inr index \<and>
          input_iters = fst (collect_loops loops 0 (Map.empty, Map.empty)) \<and> rb = False \<longrightarrow>
          SuggestIndexMap H buffer indices loops predicate analyzer = Inl (IterSumArity (length ds)))"
proof (intro impI conjI)
  assume h: "DetectIterMap H [Simplify H analyzer index] input_iters predicate rb analyzer = ds \<and>
   ds \<noteq> [] \<and> length ds \<noteq> 1"
  then show c: "Collect_exprs H index input_iters predicate rb analyzer = Inl (IterSumArity (length ds))"
    by (intro Collect_many) auto
  assume "GetStrides buffer = Inr strds \<and>
          f_flatten_index (length (shape buffer)) strds indices = Inr index \<and>
          input_iters = fst (collect_loops loops 0 (Map.empty, Map.empty)) \<and> rb = False"
  with c show "SuggestIndexMap H buffer indices loops predicate analyzer = Inl (IterSumArity (length ds))"
    by (intro SuggestIndexMap_Collect_Inl) auto
qed

theorem several_decompositions_abort_witness:
  "DetectIterMap (host_of [sum_ko_ki, sum_ko_ki]) [Simplify (host_of [sum_ko_ki, sum_ko_ki]) []
       (Add (IntImm 0) (Mul (IntImm 1) index_ko_ki))]
     (fst (collect_loops loops_ko_ki 0 (Map.empty, Map.empty))) (IntImm 1) False []
     = [sum_ko_ki, sum_ko_ki]
   \<and> Collect_exprs (host_of [sum_ko_ki, sum_ko_ki]) (Add (IntImm 0) (Mul (IntImm 1) index_ko_ki))
       (fst (collect_loops loops_ko_ki 0 (Map.empty, Map.empty))) (IntImm 1) False []
       = Inl (IterSumArity 2)
   \<and> SuggestIndexMap (host_of [sum_ko_ki, sum_ko_ki]) buffer32 [index_ko_ki] loops_ko_ki (IntImm 1) []
       = Inl (IterSumArity 2)"
  using several_decompositions_abort [of "host_of [sum_ko_ki, sum_ko_ki]" "[]"
      "Add (IntImm 0) (Mul (IntImm 1) index_ko_ki)"
      "fst (collect_loops loops_ko_ki 0 (Map.empty, Map.empty))" "IntImm 1" False
      "[sum_ko_ki, sum_ko_ki]" buffer32 "[IntImm 1]" "[index_ko_ki]" loops_ko_ki]
    GetStrides_buffer32 flatten_buffer32 [of index_ko_ki "[]"]
  by (simp add: host_of_def)

lemma collect_loops_ko_ki:
  "snd (collect_loops loops_ko_ki 0 (Map.empty, Map.empty)) ''ko'' = Some 0"
  "snd (collect_loops loops_ko_ki 0 (Map.empty, Map.empty)) ''ki'' = Some 1"
  by (simp_all add: loops_ko_ki_def emplace_def)

lemma arrangement_host_of: "arrangement (host_of ds) n = [0..<n]"
  by (simp add: arrangement_def host_of_def)

lemma sort_order_ko_ki:
  "sort_order (host_of ds) (snd (collect_loops loops_ko_ki 0 (Map.empty, Map.empty)))
     [\<lparr>source = ''ko'', lower_factor = 1, extent = 4\<rparr>,
      \<lparr>source = ''ki'', lower_factor = 1, extent = 8\<rparr>] = Inr [0, Suc 0]"
  by (simp add: sort_order_def arrangement_host_of compare_split_def collect_loops_ko_ki upt_rec)

lemma alter_layout_ko_ki:
  "IndexMap_FromFunc (NewVar (host_of ds)) (length (shape buffer32))
     (f_alter_layout (host_of ds) [] (length (shape buffer32)) [IntImm 1]
        [\<lparr>source = ''ko'', lower_factor = 1, extent = 4\<rparr>,
         \<lparr>source = ''ki'', lower_factor = 1, extent = 8\<rparr>] [0, Suc 0] (shape buffer32))
   = Inr (\<lparr>initial_indices = [''i''], final_indices = digits_ko_ki\<rparr>,
          [(''i'', RangeNode (IntImm 0) (IntImm 32))])"
  by (simp add: IndexMap_FromFunc_def f_alter_layout_def buffer32_def host_of_def
      f_flatten_index_def array_get_def Bind_def Range_FromMinExtent_def digits_ko_ki_def upt_rec
      Let_def floormod_int_def floordiv_int_def narrow_int_def)

lemma Collect_wrapped_dynamic:
  "Collect_exprs (host_of [wrapped_dynamic_example]) i it p rb a =
     Inr [\<lparr>source = ''ko'', lower_factor = 1, extent = 4\<rparr>,
          \<lparr>source = ''ki'', lower_factor = 1, extent = 8\<rparr>]"
  by (simp add: Collect_exprs_def host_of_def wrapped_dynamic_example_def sum_ko_ki_def leaf_split_def)

text \<open>
  Claim C6 fails as stated. A split node around a nested sum may have a lower factor that
  is no constant: its factors are never looked at, and a suggestion is returned. And after
  a variable node with a dynamic extent the walk goes on, so that a later node of
  unexpected shape still fails the assertion.
\<close>

theorem dynamic_factor_counterexample:
  "dynamic_sum wrapped_dynamic_example
   \<and> SuggestIndexMap (host_of [wrapped_dynamic_example]) buffer32 [index_ko_ki] loops_ko_ki
        (IntImm 1) []
       = Inr (Some \<lparr>initial_indices = [''i''], final_indices = digits_ko_ki\<rparr>,
              [(''i'', RangeNode (IntImm 0) (IntImm 32))])
   \<and> dynamic_sum dynamic_then_unexpected_example
   \<and> SuggestIndexMap (host_of [dynamic_then_unexpected_example]) buffer32 [index_ko_ki] loops_ko_ki
        (IntImm 1) []
       = Inl (UnexpectedType (Mul (VarNode ''ki'') (IntImm 2)))"
proof -
  have 1: "dynamic_sum wrapped_dynamic_example"
    by (simp add: wrapped_dynamic_example_def)
  have 2: "SuggestIndexMap (host_of [wrapped_dynamic_example]) buffer32 [index_ko_ki] loops_ko_ki
        (IntImm 1) []
       = Inr (Some \<lparr>initial_indices = [''i''], final_indices = digits_ko_ki\<rparr>,
              [(''i'', RangeNode (IntImm 0) (IntImm 32))])"
    by (simp add: SuggestIndexMap_after_flatten [OF GetStrides_buffer32 flatten_buffer32]
        Collect_wrapped_dynamic sort_order_ko_ki alter_layout_ko_ki)
  have 3: "dynamic_sum dynamic_then_unexpected_example"
    by (simp add: dynamic_then_unexpected_example_def)
  have "Collect_exprs (host_of [dynamic_then_unexpected_example])
          (Add (IntImm 0) (Mul (IntImm 1) index_ko_ki))
          (fst (collect_loops loops_ko_ki 0 (Map.empty, Map.empty))) (IntImm 1) False []
        = Inl (UnexpectedType (Mul (VarNode ''ki'') (IntImm 2)))"
    by (simp add: Collect_exprs_def host_of_def dynamic_then_unexpected_example_def)
  then have 4: "SuggestIndexMap (host_of [dynamic_then_unexpected_example]) buffer32 [index_ko_ki]
        loops_ko_ki (IntImm 1) []
       = Inl (UnexpectedType (Mul (VarNode ''ki'') (IntImm 2)))"
    by (rule SuggestIndexMap_Collect_Inl [OF GetStrides_buffer32 flatten_buffer32])
  from 1 2 3 4 show ?thesis by blast
qed

text \<open>
  Claim C6, amended. If the one decomposition detected has only nodes of the two expected
  shapes, and some split node that wraps a variable has a lower factor or an extent that
  is no integer constant, then the extraction returns the empty list and
  \<^verbatim>\<open>SuggestIndexMap\<close> returns no suggestion.
\<close>

theorem dynamic_leaf_no_suggestion:
  "DetectIterMap H [Simplify H analyzer index] input_iters predicate rb analyzer = [s] \<and>
   \<not> unexpected_sum s \<and>
   (\<exists>(v, lf, ext) \<in> set (leaves_sum s). as_const_int lf = None \<or> as_const_int ext = None) \<longrightarrow>
     Collect_exprs H index input_iters predicate rb analyzer = Inr []
     \<and> (GetStrides buffer = Inr strds \<and>
          f_flatten_index (length (shape buffer)) strds indices = Inr index \<and>
          input_iters = fst (collect_loops loops 0 (Map.empty, Map.empty)) \<and> rb = False \<longrightarrow>
          SuggestIndexMap H buffer indices loops predicate analyzer = Inr (None, analyzer))"
proof (intro impI conjI)
  assume h: "DetectIterMap H [Simplify H analyzer index] input_iters predicate rb analyzer = [s] \<and>
   \<not> unexpected_sum s \<and>
   (\<exists>(v, lf, ext) \<in> set (leaves_sum s). as_const_int lf = None \<or> as_const_int ext = None)"
  then obtain v lf ext where "(v, lf, ext) \<in> set (leaves_sum s)"
    and "as_const_int lf = None \<or> as_const_int ext = None" by auto
  moreover from this have "component_of (v, lf, ext) = None"
    by (auto simp: component_of_def split: option.splits)
  ultimately have "\<exists>l \<in> set (leaves_sum s). component_of l = None" by blast
  with h show c: "Collect_exprs H index input_iters predicate rb analyzer = Inr []"
    by (simp add: Collect_expected)
  assume "GetStrides buffer = Inr strds \<and>
          f_flatten_index (length (shape buffer)) strds indices = Inr index \<and>
          input_iters = fst (collect_loops loops 0 (Map.empty, Map.empty)) \<and> rb = False"
  with c show "SuggestIndexMap H buffer indices loops predicate analyzer = Inr (None, analyzer)"
    by (intro SuggestIndexMap_Collect_Nil) auto
qed

theorem dynamic_leaf_no_suggestion_witness:
  "DetectIterMap (host_of [dynamic_leaf_example])
       [Simplify (host_of [dynamic_leaf_example]) [] (Add (IntImm 0) (Mul (IntImm 1) index_ko_ki))]
       (fst (collect_loops loops_ko_ki 0 (Map.empty, Map.empty))) (IntImm 1) False []
     = [dynamic_leaf_example]
   \<and> \<not> unexpected_sum dynamic_leaf_example
   \<and> leaves_sum dynamic_leaf_example
       = [(''ko'', IntImm 1, VarNode ''n''), (''ki'', IntImm 1, IntImm 8)]
   \<and> as_const_int (VarNode ''n'') = None
   \<and> Collect_exprs (host_of [dynamic_leaf_example]) (Add (IntImm 0) (Mul (IntImm 1) index_ko_ki))
       (fst (collect_loops loops_ko_ki 0 (Map.empty, Map.empty))) (IntImm 1) False [] = Inr []
   \<and> SuggestIndexMap (host_of [dynamic_leaf_example]) buffer32 [index_ko_ki] loops_ko_ki
        (IntImm 1) [] = Inr (None, [])"
proof -
  have l: "leaves_sum dynamic_leaf_example
       = [(''ko'', IntImm 1, VarNode ''n''), (''ki'', IntImm 1, IntImm 8)]"
    by (simp add: dynamic_leaf_example_def leaf_split_def)
  have u: "\<not> unexpected_sum dynamic_leaf_example"
    by (simp add: dynamic_leaf_example_def leaf_split_def)
  from dynamic_leaf_no_suggestion [of "host_of [dynamic_leaf_example]" "[]"
      "Add (IntImm 0) (Mul (IntImm 1) index_ko_ki)"
      "fst (collect_loops loops_ko_ki 0 (Map.empty, Map.empty))" "IntImm 1" False
      dynamic_leaf_example buffer32 "[IntImm 1]" "[index_ko_ki]" loops_ko_ki]
    GetStrides_buffer32 flatten_buffer32 [of index_ko_ki "[]"] l u
  show ?thesis by (simp add: host_of_def)
qed

subsection \<open>No components, no suggestion\<close>

lemma flatten_rank0: "f_flatten_index 0 strds indices = Inr (IntImm 0)"
  by (simp add: f_flatten_index_def)

text \<open>
  Claim C7. When the extraction returns the empty list, \<^verbatim>\<open>SuggestIndexMap\<close> returns no
  suggestion and leaves the analyzer as it was. The extraction does so when no
  decomposition is detected and when the one detected has no split terms. For every
  buffer of rank 0 that has the invariant of buffer descriptors, the strides derived are
  empty and the flattened index is the constant 0 whatever indices are supplied, and no
  suggestion is returned when the detection finds no split terms in this constant.
\<close>

theorem empty_components_no_suggestion:
  "(GetStrides buffer = Inr strds \<and>
    f_flatten_index (length (shape buffer)) strds indices = Inr index \<and>
    Collect_exprs H index (fst (collect_loops loops 0 (Map.empty, Map.empty))) predicate False
      analyzer = Inr [] \<longrightarrow>
      SuggestIndexMap H buffer indices loops predicate analyzer = Inr (None, analyzer))
   \<and> (DetectIterMap H1 [Simplify H1 a1 i1] it1 p1 rb1 a1 = [] \<longrightarrow>
        Collect_exprs H1 i1 it1 p1 rb1 a1 = Inr [])
   \<and> (DetectIterMap H2 [Simplify H2 a2 i2] it2 p2 rb2 a2 = [IterSumExpr [] base] \<longrightarrow>
        Collect_exprs H2 i2 it2 p2 rb2 a2 = Inr [])
   \<and> (shape b0 = [] \<and> buffer_invariant b0 \<longrightarrow>
        GetStrides b0 = Inr [] \<and>
        f_flatten_index (length (shape b0)) [] indices0 = Inr (IntImm 0) \<and>
        ((DetectIterMap H0 [Simplify H0 a0 (IntImm 0)]
            (fst (collect_loops loops0 0 (Map.empty, Map.empty))) p0 False a0 = [] \<or>
          (\<exists>base0. DetectIterMap H0 [Simplify H0 a0 (IntImm 0)]
            (fst (collect_loops loops0 0 (Map.empty, Map.empty))) p0 False a0
              = [IterSumExpr [] base0])) \<longrightarrow>
         SuggestIndexMap H0 b0 indices0 loops0 p0 a0 = Inr (None, a0)))"
proof (intro conjI impI)
  assume "GetStrides buffer = Inr strds \<and>
    f_flatten_index (length (shape buffer)) strds indices = Inr index \<and>
    Collect_exprs H index (fst (collect_loops loops 0 (Map.empty, Map.empty))) predicate False
      analyzer = Inr []"
  then show "SuggestIndexMap H buffer indices loops predicate analyzer = Inr (None, analyzer)"
    by (intro SuggestIndexMap_Collect_Nil) auto
next
  assume "DetectIterMap H1 [Simplify H1 a1 i1] it1 p1 rb1 a1 = []"
  then show "Collect_exprs H1 i1 it1 p1 rb1 a1 = Inr []" by (rule Collect_none)
next
  assume "DetectIterMap H2 [Simplify H2 a2 i2] it2 p2 rb2 a2 = [IterSumExpr [] base]"
  then show "Collect_exprs H2 i2 it2 p2 rb2 a2 = Inr []" by (simp add: Collect_exprs_def)
next
  assume "shape b0 = [] \<and> buffer_invariant b0"
  then have h: "shape b0 = [] \<and> strides b0 = []" by (auto simp: buffer_invariant_def)
  then show g: "GetStrides b0 = Inr []" by (simp add: GetStrides_def)
  from h show f: "f_flatten_index (length (shape b0)) [] indices0 = Inr (IntImm 0)"
    by (simp add: flatten_rank0)
  let ?ds = "DetectIterMap H0 [Simplify H0 a0 (IntImm 0)]
            (fst (collect_loops loops0 0 (Map.empty, Map.empty))) p0 False a0"
  assume "?ds = [] \<or> (\<exists>base0. ?ds = [IterSumExpr [] base0])"
  then have "Collect_exprs H0 (IntImm 0) (fst (collect_loops loops0 0 (Map.empty, Map.empty)))
               p0 False a0 = Inr []"
    by (auto simp: Collect_exprs_def)
  then show "SuggestIndexMap H0 b0 indices0 loops0 p0 a0 = Inr (None, a0)"
    by (rule SuggestIndexMap_Collect_Nil [OF g f])
qed

theorem empty_components_no_suggestion_witness:
  "SuggestIndexMap (host_of []) buffer32 [index_ko_ki] loops_ko_ki (IntImm 1) [] = Inr (None, [])
   \<and> Collect_exprs (host_of []) index_ko_ki Map.empty (IntImm 1) False [] = Inr []
   \<and> Collect_exprs (host_of [IterSumExpr [] (IntImm 5)]) (IntImm 5) Map.empty (IntImm 1) False []
        = Inr []
   \<and> GetStrides buffer0 = Inr []
   \<and> f_flatten_index (length (shape buffer0)) [] [index_ko_ki] = Inr (IntImm 0)
   \<and> SuggestIndexMap (host_of [IterSumExpr [] (IntImm 0)]) buffer0 [index_ko_ki] loops_ko_ki
        (IntImm 1) [] = Inr (None, [])
   \<and> SuggestIndexMap (host_of []) buffer0 [] [] (IntImm 1) [] = Inr (None, [])"
proof -
  have c: "Collect_exprs (host_of []) i it p rb a = Inr []" for i it p rb a
    by (simp add: Collect_exprs_def host_of_def)
  have b: "shape buffer0 = [] \<and> buffer_invariant buffer0"
    by (simp add: buffer0_def buffer_invariant_def)
  from empty_components_no_suggestion [of buffer32 "[IntImm 1]" "[index_ko_ki]"
      "Add (IntImm 0) (Mul (IntImm 1) index_ko_ki)" "host_of []" loops_ko_ki "IntImm 1" "[]"
      "host_of []" "[]" index_ko_ki Map.empty "IntImm 1" False
      "host_of [IterSumExpr [] (IntImm 5)]" "[]" "IntImm 5" Map.empty "IntImm 1" False "IntImm 5"
      buffer0 "[index_ko_ki]" "host_of [IterSumExpr [] (IntImm 0)]" "[]" loops_ko_ki "IntImm 1"]
    empty_components_no_suggestion [of buffer32 "[IntImm 1]" "[index_ko_ki]"
      "Add (IntImm 0) (Mul (IntImm 1) index_ko_ki)" "host_of []" loops_ko_ki "IntImm 1" "[]"
      "host_of []" "[]" index_ko_ki Map.empty "IntImm 1" False
      "host_of [IterSumExpr [] (IntImm 5)]" "[]" "IntImm 5" Map.empty "IntImm 1" False "IntImm 5"
      buffer0 "[]" "host_of []" "[]" "[]" "IntImm 1"]
    GetStrides_buffer32 flatten_buffer32 [of index_ko_ki "[]"] c b
  show ?thesis by (simp add: host_of_def)
qed

subsection \<open>Arity of strides and indices\<close>

lemma GetStrides_length: "GetStrides b = Inr strds \<Longrightarrow> length strds = length (shape b)"
  by (auto simp: GetStrides_def Let_def length_strides_loop split: if_splits)

lemma GetStrides_Inl:
  "GetStrides b = Inl e \<longleftrightarrow>
     strides b \<noteq> [] \<and> length (strides b) \<noteq> length (shape b) \<and>
     e = StridesArity (length (strides b)) (length (shape b))"
  by (auto simp: GetStrides_def Let_def)

lemma GetStrides_total:
  "strides b = [] \<or> length (strides b) = length (shape b) \<Longrightarrow> \<exists>strds. GetStrides b = Inr strds"
  by (cases "GetStrides b") (auto simp: GetStrides_Inl)

lemma array_get_take: "i < n \<Longrightarrow> array_get (take n xs) i = array_get xs i"
  by (auto simp: array_get_def)

lemma flatten_loop_take:
  "\<forall>i \<in> set is. i < n \<Longrightarrow>
   flatten_loop strds (take n indices) is acc = flatten_loop strds indices is acc"
  by (induction "is" arbitrary: acc) (simp_all add: array_get_take split: sum.splits)

lemma f_flatten_index_take:
  "f_flatten_index n strds (take n indices) = f_flatten_index n strds indices"
  by (simp add: f_flatten_index_def flatten_loop_take)

lemma flatten_loop_short:
  "k \<le> length indices \<Longrightarrow> length indices < n \<Longrightarrow> n \<le> length strds \<Longrightarrow>
   flatten_loop strds indices [k..<n] acc = Inl (IndexError (length indices) (length indices))"
proof (induction "length indices - k" arbitrary: k acc)
  case 0
  then have k: "k = length indices" by simp
  with 0 have "[k..<n] = k # [Suc k..<n]" by (simp add: upt_conv_Cons)
  with k 0 show ?case by (simp add: array_get_def)
next
  case (Suc d)
  then have lt: "k < length indices" by simp
  with Suc have u: "[k..<n] = k # [Suc k..<n]" by (simp add: upt_conv_Cons)
  have "d = length indices - Suc k" using Suc by simp
  from Suc.hyps(1) [OF this] Suc.prems lt
  have "flatten_loop strds indices [Suc k..<n] acc' =
          Inl (IndexError (length indices) (length indices))" for acc'
    by simp
  with u lt Suc.prems show ?case by (simp add: array_get_def)
qed

lemma f_flatten_index_short:
  "length indices < n \<Longrightarrow> n \<le> length strds \<Longrightarrow>
   f_flatten_index n strds indices = Inl (IndexError (length indices) (length indices))"
  by (simp add: f_flatten_index_def flatten_loop_short)

lemma SuggestIndexMap_take:
  "SuggestIndexMap H b (take (length (shape b)) indices) loops predicate analyzer =
   SuggestIndexMap H b indices loops predicate analyzer"
  by (cases "GetStrides b")
     (simp_all add: SuggestIndexMap_def Let_def case_prod_beta f_flatten_index_take)

text \<open>
  Claim C3 fails as stated: a sequence of indices longer than the rank of the buffer is
  accepted, and a suggestion is returned.
\<close>

theorem surplus_indices_counterexample:
  "length [index_ko_ki, IntImm 7] \<noteq> length (shape buffer32)
   \<and> SuggestIndexMap (host_of [sum_ko_ki]) buffer32 [index_ko_ki, IntImm 7] loops_ko_ki (IntImm 1) []
       = Inr (Some \<lparr>initial_indices = [''i''], final_indices = digits_ko_ki\<rparr>,
              [(''i'', RangeNode (IntImm 0) (IntImm 32))])"
proof -
  have "Collect_exprs (host_of [sum_ko_ki]) i it p rb a =
     Inr [\<lparr>source = ''ko'', lower_factor = 1, extent = 4\<rparr>,
          \<lparr>source = ''ki'', lower_factor = 1, extent = 8\<rparr>]" for i it p rb a
    by (simp add: Collect_exprs_def host_of_def sum_ko_ki_def leaf_split_def)
  then show ?thesis
    by (simp add: SuggestIndexMap_after_flatten [OF GetStrides_buffer32 flatten_buffer32]
        sort_order_ko_ki alter_layout_ko_ki) (simp add: buffer32_def)
qed

text \<open>
  Claim C3, amended. Explicit strides whose number differs from the rank fail the
  assertion of \<^verbatim>\<open>GetStrides\<close>. With strides accepted, fewer indices than the rank fail the
  bounds check of the array of indices, at the first missing index. Indices beyond the
  rank are ignored: the call returns what it returns on the first rank-many indices. And
  the remapping function fails its assertion when it is applied to a number of
  coordinates other than the rank.
\<close>

theorem arity_violations:
  "(strides b \<noteq> [] \<and> length (strides b) \<noteq> length (shape b) \<longrightarrow>
      SuggestIndexMap H b indices loops predicate analyzer
        = Inl (StridesArity (length (strides b)) (length (shape b))))
   \<and> ((strides b1 = [] \<or> length (strides b1) = length (shape b1)) \<and>
       length indices1 < length (shape b1) \<longrightarrow>
      SuggestIndexMap H b1 indices1 loops predicate analyzer
        = Inl (IndexError (length indices1) (length indices1)))
   \<and> (length (shape b2) < length indices2 \<longrightarrow>
      SuggestIndexMap H b2 indices2 loops predicate analyzer
        = SuggestIndexMap H b2 (take (length (shape b2)) indices2) loops predicate analyzer)
   \<and> (length vs \<noteq> length shp \<longrightarrow>
      f_alter_layout H analyzer n strds split_exprs order shp vs
        = Inl (IndicesArity (length vs) (length shp)))"
proof (intro conjI impI)
  assume "strides b \<noteq> [] \<and> length (strides b) \<noteq> length (shape b)"
  then have "GetStrides b = Inl (StridesArity (length (strides b)) (length (shape b)))"
    by (simp add: GetStrides_Inl)
  then show "SuggestIndexMap H b indices loops predicate analyzer
        = Inl (StridesArity (length (strides b)) (length (shape b)))"
    by (simp add: SuggestIndexMap_def Let_def case_prod_beta)
next
  assume h: "(strides b1 = [] \<or> length (strides b1) = length (shape b1)) \<and>
       length indices1 < length (shape b1)"
  then obtain strds1 where g: "GetStrides b1 = Inr strds1" using GetStrides_total by blast
  with h have "f_flatten_index (length (shape b1)) strds1 indices1
                 = Inl (IndexError (length indices1) (length indices1))"
    by (intro f_flatten_index_short) (simp_all add: GetStrides_length)
  with g show "SuggestIndexMap H b1 indices1 loops predicate analyzer
        = Inl (IndexError (length indices1) (length indices1))"
    by (simp add: SuggestIndexMap_def Let_def case_prod_beta)
next
  show "SuggestIndexMap H b2 indices2 loops predicate analyzer
        = SuggestIndexMap H b2 (take (length (shape b2)) indices2) loops predicate analyzer"
    by (simp add: SuggestIndexMap_take)
next
  assume "length vs \<noteq> length shp"
  then show "f_alter_layout H analyzer n strds split_exprs order shp vs
        = Inl (IndicesArity (length vs) (length shp))"
    by (simp add: f_alter_layout_def)
qed

theorem arity_violations_witness:
  "SuggestIndexMap (host_of [sum_ko_ki]) \<lparr>shape = [IntImm 32], strides = [IntImm 1, IntImm 1]\<rparr>
       [index_ko_ki] loops_ko_ki (IntImm 1) [] = Inl (StridesArity 2 1)
   \<and> SuggestIndexMap (host_of [sum_ko_ki]) buffer32 [] loops_ko_ki (IntImm 1) []
       = Inl (IndexError 0 0)
   \<and> SuggestIndexMap (host_of [sum_ko_ki]) buffer32 [index_ko_ki, IntImm 7] loops_ko_ki (IntImm 1) []
       = SuggestIndexMap (host_of [sum_ko_ki]) buffer32 [index_ko_ki] loops_ko_ki (IntImm 1) []
   \<and> f_alter_layout (host_of [sum_ko_ki]) [] 1 [IntImm 1]
        [\<lparr>source = ''ko'', lower_factor = 1, extent = 4\<rparr>,
         \<lparr>source = ''ki'', lower_factor = 1, extent = 8\<rparr>] [0, 1] [IntImm 32] [''i'', ''ii'']
       = Inl (IndicesArity 2 1)"
  using arity_violations [of "\<lparr>shape = [IntImm 32], strides = [IntImm 1, IntImm 1]\<rparr>"
      "host_of [sum_ko_ki]" "[index_ko_ki]" loops_ko_ki "IntImm 1" "[]"
      buffer32 "[]" buffer32 "[index_ko_ki, IntImm 7]" "[''i'', ''ii'']" "[IntImm 32]"
      1 "[IntImm 1]" "[\<lparr>source = ''ko'', lower_factor = 1, extent = 4\<rparr>,
         \<lparr>source = ''ki'', lower_factor = 1, extent = 8\<rparr>]" "[0, 1]"]
  by (simp add: buffer32_def)

subsection \<open>The canonical order\<close>

lemma collect_loops_var2id:
  "snd (collect_loops loops k (its, m)) v =
     (case m v of
        Some i \<Rightarrow> Some i
      | None \<Rightarrow> map_option (\<lambda>i. i + k) (position_of v loops))"
proof (induction loops arbitrary: k its m)
  case Nil
  then show ?case by (simp split: option.splits)
next
  case (Cons loop loops)
  show ?case
    by (simp add: Cons.IH emplace_def option.map_comp comp_def split: option.splits)
qed

lemma var2id_position:
  "snd (collect_loops loops 0 (Map.empty, Map.empty)) v = position_of v loops"
  by (simp add: collect_loops_var2id option.map_ident)

lemma position_of_loop:
  "position_of v loops = Some i \<Longrightarrow>
   i < length loops \<and> loop_var (loops ! i) = v \<and> (\<forall>j < i. loop_var (loops ! j) \<noteq> v)"
proof (induction loops arbitrary: i)
  case Nil
  then show ?case by simp
next
  case (Cons loop loops)
  show ?case
  proof (cases "loop_var loop = v")
    case True
    with Cons.prems show ?thesis by simp
  next
    case False
    with Cons.prems obtain i' where i': "position_of v loops = Some i'" "i = Suc i'" by auto
    from Cons.IH [OF i'(1)] False i'(2) show ?thesis
      by (auto simp: nth_Cons split: nat.splits)
  qed
qed

lemma key_le_trans: "key_le m a b \<Longrightarrow> key_le m b c \<Longrightarrow> key_le m a c"
  by (auto simp: key_le_def split: option.splits)

lemma compare_split_True:
  "compare_split m es x y = Inr True \<Longrightarrow> key_le m (es ! x) (es ! y)"
  by (auto simp: compare_split_def key_le_def Let_def split: option.splits if_splits)

lemma compare_split_False:
  "compare_split m es x y = Inr False \<Longrightarrow> key_le m (es ! y) (es ! x)"
  by (auto simp: compare_split_def key_le_def Let_def split: option.splits if_splits)

lemma sort_insert_sorted:
  "sorted_wrt (\<lambda>x y. key_le m (es ! x) (es ! y)) ys \<Longrightarrow>
   sort_insert (compare_split m es) x ys = Inr r \<Longrightarrow>
   sorted_wrt (\<lambda>x y. key_le m (es ! x) (es ! y)) r \<and> set r = insert x (set ys) \<and>
   length r = Suc (length ys)"
proof (induction ys arbitrary: r)
  case Nil
  then show ?case by auto
next
  case (Cons y ys)
  show ?case
  proof (cases "compare_split m es x y")
    case (Inl e)
    with Cons.prems show ?thesis by simp
  next
    case (Inr lt)
    show ?thesis
    proof (cases lt)
      case True
      with Inr Cons.prems have r: "r = x # y # ys" by simp
      from True Inr have xy: "key_le m (es ! x) (es ! y)" by (simp add: compare_split_True)
      with Cons.prems(1) have "\<forall>z \<in> set ys. key_le m (es ! x) (es ! z)"
        by (auto intro: key_le_trans)
      with xy r Cons.prems(1) show ?thesis by auto
    next
      case False
      with Inr Cons.prems obtain r' where r': "sort_insert (compare_split m es) x ys = Inr r'"
        and r: "r = y # r'" by (auto split: sum.splits)
      from False Inr have yx: "key_le m (es ! y) (es ! x)" by (simp add: compare_split_False)
      from Cons.prems(1) have "sorted_wrt (\<lambda>x y. key_le m (es ! x) (es ! y)) ys" by simp
      from Cons.IH [OF this r'] yx r Cons.prems(1) show ?thesis by auto
    qed
  qed
qed

lemma sort_loop_sorted:
  "sorted_wrt (\<lambda>x y. key_le m (es ! x) (es ! y)) acc \<Longrightarrow>
   sort_loop (compare_split m es) acc xs = Inr r \<Longrightarrow>
   sorted_wrt (\<lambda>x y. key_le m (es ! x) (es ! y)) r \<and> set r = set acc \<union> set xs \<and>
   length r = length acc + length xs"
proof (induction xs arbitrary: acc)
  case Nil
  then show ?case by simp
next
  case (Cons x xs)
  from Cons.prems(2) obtain acc' where a: "sort_insert (compare_split m es) x acc = Inr acc'"
    and l: "sort_loop (compare_split m es) acc' xs = Inr r" by (auto split: sum.splits)
  from sort_insert_sorted [OF Cons.prems(1) a] Cons.IH [OF _ l] show ?case by auto
qed

lemma arrangement_permutation:
  "set (arrangement H n) = {0..<n} \<and> length (arrangement H n) = n"
proof (cases "sort (Rearrange H [0..<n]) = [0..<n]")
  case True
  have "set (Rearrange H [0..<n]) = set (sort (Rearrange H [0..<n]))"
    and "length (Rearrange H [0..<n]) = length (sort (Rearrange H [0..<n]))" by simp_all
  with True show ?thesis by (simp add: arrangement_def)
next
  case False
  then show ?thesis by (simp add: arrangement_def)
qed

lemma sort_order_sorted:
  assumes "sort_order H m es = Inr order"
  shows "sorted_wrt (\<lambda>x y. key_le m (es ! x) (es ! y)) order"
    and "set order = {0..<length es}" and "length order = length es" and "distinct order"
proof -
  from assms have "sort_loop (compare_split m es) [] (arrangement H (length es)) = Inr order"
    by (simp add: sort_order_def)
  from sort_loop_sorted [OF _ this] arrangement_permutation [of H "length es"]
  show 1: "sorted_wrt (\<lambda>x y. key_le m (es ! x) (es ! y)) order"
    and 2: "set order = {0..<length es}" and 3: "length order = length es" by auto
  from 2 3 show "distinct order" by (simp add: card_distinct)
qed

lemma sort_order_pair:
  assumes "sort_order H m es = Inr order" and "q < p" and "p < length es"
  shows "key_le m (es ! (order ! q)) (es ! (order ! p))"
  using sort_order_sorted(1,3) [OF assms(1)] assms(2,3) by (simp add: sorted_wrt_iff_nth_less)

lemma compare_split_total:
  "m (source (es ! x)) \<noteq> None \<Longrightarrow> m (source (es ! y)) \<noteq> None \<Longrightarrow>
   \<exists>b. compare_split m es x y = Inr b"
  by (auto simp: compare_split_def Let_def)

lemma sort_insert_total:
  "\<forall>y \<in> insert x (set ys). m (source (es ! y)) \<noteq> None \<Longrightarrow>
   \<exists>r. sort_insert (compare_split m es) x ys = Inr r \<and> set r = insert x (set ys)"
proof (induction ys)
  case Nil
  then show ?case by simp
next
  case (Cons y ys)
  then obtain b where b: "compare_split m es x y = Inr b"
    using compare_split_total [of m es x y] by auto
  from Cons obtain r where r: "sort_insert (compare_split m es) x ys = Inr r"
    "set r = insert x (set ys)" by auto
  from b r show ?case by (cases b) auto
qed

lemma sort_loop_total:
  "\<forall>y \<in> set acc \<union> set xs. m (source (es ! y)) \<noteq> None \<Longrightarrow>
   \<exists>r. sort_loop (compare_split m es) acc xs = Inr r"
proof (induction xs arbitrary: acc)
  case Nil
  then show ?case by simp
next
  case (Cons x xs)
  then have "\<forall>y \<in> insert x (set acc). m (source (es ! y)) \<noteq> None" by auto
  from sort_insert_total [OF this] obtain acc'
    where a: "sort_insert (compare_split m es) x acc = Inr acc'" "set acc' = insert x (set acc)"
    by blast
  with Cons.prems have "\<forall>y \<in> set acc' \<union> set xs. m (source (es ! y)) \<noteq> None" by auto
  from Cons.IH [OF this] a(1) show ?case by simp
qed

lemma sort_order_total:
  assumes "\<forall>e \<in> set es. m (source e) \<noteq> None"
  shows "\<exists>order. sort_order H m es = Inr order"
proof -
  from assms arrangement_permutation [of H "length es"]
  have "\<forall>y \<in> set [] \<union> set (arrangement H (length es)). m (source (es ! y)) \<noteq> None" by simp
  from sort_loop_total [OF this] show ?thesis by (simp add: sort_order_def)
qed

lemma sort_insert_append:
  "\<forall>y \<in> set acc. key_le m (es ! y) (es ! x) \<Longrightarrow>
   sort_insert (compare_split m es) x acc = Inr (acc @ [x])"
proof (induction acc)
  case Nil
  then show ?case by simp
next
  case (Cons y ys)
  then have "key_le m (es ! y) (es ! x)" by simp
  then have "compare_split m es x y = Inr False"
    by (auto simp: key_le_def compare_split_def Let_def split: option.splits)
  with Cons show ?case by simp
qed

lemma sort_loop_append:
  "sorted_wrt (\<lambda>x y. key_le m (es ! x) (es ! y)) (acc @ xs) \<Longrightarrow>
   sort_loop (compare_split m es) acc xs = Inr (acc @ xs)"
proof (induction xs arbitrary: acc)
  case Nil
  then show ?case by simp
next
  case (Cons x xs)
  from Cons.prems have "\<forall>y \<in> set acc. key_le m (es ! y) (es ! x)"
    by (simp add: sorted_wrt_append)
  then have i: "sort_insert (compare_split m es) x acc = Inr (acc @ [x])"
    by (rule sort_insert_append)
  from Cons.prems have "sorted_wrt (\<lambda>x y. key_le m (es ! x) (es ! y)) ((acc @ [x]) @ xs)" by simp
  from Cons.IH [OF this] i show ?case by simp
qed

lemma sort_order_reaches:
  assumes "Rearrange H [0..<length es] = order" and "sort order = [0..<length es]"
    and "sorted_wrt (\<lambda>x y. key_le m (es ! x) (es ! y)) order"
  shows "sort_order H m es = Inr order"
  using assms sort_loop_append [of m es "[]" order]
  by (simp add: sort_order_def arrangement_def)

text \<open>
  Claim C4. When the variable of every component is a loop variable the sort returns. The
  order that the sort returns is a permutation of the indices of the split expressions,
  and in it a component whose variable has an earlier position in the loop sequence
  stands before one whose variable has a later position, and of two components of the
  same variable the one with the larger lower factor stands first.
\<close>

theorem canonical_order:
  "((\<forall>e \<in> set split_exprs. position_of (source e) loops \<noteq> None) \<longrightarrow>
      (\<exists>order'. sort_order H (snd (collect_loops loops 0 (Map.empty, Map.empty))) split_exprs
                   = Inr order'))
   \<and> (sort_order H (snd (collect_loops loops 0 (Map.empty, Map.empty))) split_exprs = Inr order \<longrightarrow>
         length order = length split_exprs \<and> set order = {0..<length split_exprs} \<and>
         distinct order \<and>
         (\<forall>p < length order. \<forall>q < length order. \<forall>i j.
            position_of (source (split_exprs ! (order ! p))) loops = Some i \<and>
            position_of (source (split_exprs ! (order ! q))) loops = Some j \<and> i < j \<longrightarrow> p < q) \<and>
         (\<forall>p < length order. \<forall>q < length order.
            source (split_exprs ! (order ! p)) = source (split_exprs ! (order ! q)) \<and>
            lower_factor (split_exprs ! (order ! q)) < lower_factor (split_exprs ! (order ! p))
              \<longrightarrow> p < q))"
proof (intro conjI impI)
  let ?m = "snd (collect_loops loops 0 (Map.empty, Map.empty))"
  have m: "?m v = position_of v loops" for v by (rule var2id_position)
  {
    assume "\<forall>e \<in> set split_exprs. position_of (source e) loops \<noteq> None"
    then have "\<forall>e \<in> set split_exprs. ?m (source e) \<noteq> None" by (simp add: m)
    then show "\<exists>order'. sort_order H ?m split_exprs = Inr order'" by (rule sort_order_total)
  }
  assume assms: "sort_order H ?m split_exprs = Inr order"
  note s = sort_order_sorted [OF assms]
  from s show "length order = length split_exprs" "set order = {0..<length split_exprs}"
    "distinct order" by simp_all
  show "\<forall>p < length order. \<forall>q < length order. \<forall>i j.
            position_of (source (split_exprs ! (order ! p))) loops = Some i \<and>
            position_of (source (split_exprs ! (order ! q))) loops = Some j \<and> i < j \<longrightarrow> p < q"
  proof (intro allI impI)
    fix p q i j
    assume pq: "p < length order" "q < length order"
      and pos: "position_of (source (split_exprs ! (order ! p))) loops = Some i \<and>
            position_of (source (split_exprs ! (order ! q))) loops = Some j \<and> i < j"
    show "p < q"
    proof (rule ccontr)
      assume "\<not> p < q"
      with pos have "q < p" by (cases "p = q") auto
      from sort_order_pair [OF assms this] pq s(3)
      have "key_le ?m (split_exprs ! (order ! q)) (split_exprs ! (order ! p))" by simp
      with pos show False by (simp add: key_le_def m)
    qed
  qed
  show "\<forall>p < length order. \<forall>q < length order.
            source (split_exprs ! (order ! p)) = source (split_exprs ! (order ! q)) \<and>
            lower_factor (split_exprs ! (order ! q)) < lower_factor (split_exprs ! (order ! p))
              \<longrightarrow> p < q"
  proof (intro allI impI)
    fix p q
    assume pq: "p < length order" "q < length order"
      and same: "source (split_exprs ! (order ! p)) = source (split_exprs ! (order ! q)) \<and>
            lower_factor (split_exprs ! (order ! q)) < lower_factor (split_exprs ! (order ! p))"
    show "p < q"
    proof (rule ccontr)
      assume "\<not> p < q"
      with same have "q < p" by (cases "p = q") auto
      from sort_order_pair [OF assms this] pq s(3)
      have "key_le ?m (split_exprs ! (order ! q)) (split_exprs ! (order ! p))" by simp
      with same show False by (auto simp: key_le_def split: option.splits)
    qed
  qed
qed

theorem canonical_order_witness:
  "position_of (source (splits_ki_ko_ko ! 0)) loops_ko_ki = Some 1
   \<and> position_of (source (splits_ki_ko_ko ! 1)) loops_ko_ki = Some 0
   \<and> position_of (source (splits_ki_ko_ko ! 2)) loops_ko_ki = Some 0
   \<and> sort_order (host_of []) (snd (collect_loops loops_ko_ki 0 (Map.empty, Map.empty))) splits_ki_ko_ko
     = Inr [2, 1, 0]
   \<and> source (splits_ki_ko_ko ! ([2, 1, 0] ! 0)) = source (splits_ki_ko_ko ! ([2, 1, 0] ! 1))
   \<and> lower_factor (splits_ki_ko_ko ! ([2, 1, 0] ! 1)) < lower_factor (splits_ki_ko_ko ! ([2, 1, 0] ! 0))
   \<and> length [2, 1, 0 :: nat] = length splits_ki_ko_ko
   \<and> distinct [2, 1, 0 :: nat]"
proof -
  have h: "sort_order (host_of []) (snd (collect_loops loops_ko_ki 0 (Map.empty, Map.empty)))
             splits_ki_ko_ko
     = Inr [2, 1, 0]"
    by (simp add: sort_order_def arrangement_host_of compare_split_def collect_loops_ko_ki
        splits_ki_ko_ko_def upt_rec numeral_2_eq_2)
  have a: "\<forall>e \<in> set splits_ki_ko_ko. position_of (source e) loops_ko_ki \<noteq> None"
    by (simp add: splits_ki_ko_ko_def loops_ko_ki_def)
  from canonical_order [of splits_ki_ko_ko loops_ko_ki "host_of []" "[2, 1, 0]"] a h show ?thesis
    by (simp add: splits_ki_ko_ko_def loops_ko_ki_def)
qed

subsection \<open>The remapping function\<close>


lemma f_alter_layout_Inr:
  assumes "f_alter_layout H analyzer n strds split_exprs order shp vs = Inr (results, analyzer')"
  shows "length vs = length shp" and "length results = length split_exprs"
    and "\<exists>index pushed. f_flatten_index n strds (map VarNode vs) = Inr index \<and>
           split_loop (Simplify H analyzer') (rev split_exprs) index [] = Inr pushed \<and>
           results = map (\<lambda>i. rev pushed ! (order ! i)) [0..<length split_exprs]"
  using assms by (auto simp: f_alter_layout_def Let_def split: if_splits sum.splits)

lemma IndexMap_FromFunc_Inr:
  assumes "IndexMap_FromFunc new_var n func = Inr (m, analyzer')"
  shows "initial_indices m = map new_var [0..<n]"
    and "func (initial_indices m) = Inr (final_indices m, analyzer')"
  using assms by (auto simp: IndexMap_FromFunc_def Let_def split: sum.splits prod.splits)

lemma SuggestIndexMap_Some:
  assumes "SuggestIndexMap H buffer indices loops predicate analyzer = Inr (Some m, analyzer')"
  shows "\<exists>strds index split_exprs order.
           GetStrides buffer = Inr strds \<and>
           f_flatten_index (length (shape buffer)) strds indices = Inr index \<and>
           Collect_exprs H index (fst (collect_loops loops 0 (Map.empty, Map.empty))) predicate
             False analyzer = Inr split_exprs \<and>
           split_exprs \<noteq> [] \<and>
           sort_order H (snd (collect_loops loops 0 (Map.empty, Map.empty))) split_exprs = Inr order \<and>
           initial_indices m = map (NewVar H) [0..<length (shape buffer)] \<and>
           f_alter_layout H analyzer (length (shape buffer)) strds split_exprs order (shape buffer)
             (initial_indices m) = Inr (final_indices m, analyzer')"
proof -
  from assms obtain strds where g: "GetStrides buffer = Inr strds"
    by (cases "GetStrides buffer") (auto simp: SuggestIndexMap_def Let_def case_prod_beta)
  from assms g obtain index
    where f: "f_flatten_index (length (shape buffer)) strds indices = Inr index"
    by (cases "f_flatten_index (length (shape buffer)) strds indices")
       (auto simp: SuggestIndexMap_def Let_def case_prod_beta)
  note u = assms [unfolded SuggestIndexMap_after_flatten [OF g f]]
  from u obtain split_exprs
    where c: "Collect_exprs H index (fst (collect_loops loops 0 (Map.empty, Map.empty))) predicate
             False analyzer = Inr split_exprs"
    by (auto split: sum.splits)
  from u c have ne: "split_exprs \<noteq> []" by (auto split: if_splits)
  from u c ne obtain order
    where s: "sort_order H (snd (collect_loops loops 0 (Map.empty, Map.empty))) split_exprs = Inr order"
    by (auto split: sum.splits)
  from u c ne s have "IndexMap_FromFunc (NewVar H) (length (shape buffer))
      (f_alter_layout H analyzer (length (shape buffer)) strds split_exprs order (shape buffer))
        = Inr (m, analyzer')"
    by (auto split: sum.splits)
  from IndexMap_FromFunc_Inr [OF this] g f c ne s show ?thesis by blast
qed

text \<open>
  Claim C1 fails as stated: for the buffer of shape \<open>[32]\<close> indexed by \<open>ko * 8 + ki\<close> the
  map returned takes one coordinate, as many as the buffer has dimensions, and yields
  two, as many as there are split components.
\<close>

theorem remapping_arity_counterexample:
  "SuggestIndexMap (host_of [sum_ko_ki]) buffer32 [index_ko_ki] loops_ko_ki (IntImm 1) []
     = Inr (Some map_ko_ki, [(''i'', RangeNode (IntImm 0) (IntImm 32))])
   \<and> Collect_exprs (host_of [sum_ko_ki]) (Add (IntImm 0) (Mul (IntImm 1) index_ko_ki))
        (fst (collect_loops loops_ko_ki 0 (Map.empty, Map.empty))) (IntImm 1) False []
     = Inr splits_ko_ki
   \<and> length (initial_indices map_ko_ki) \<noteq> length splits_ko_ki
   \<and> length (final_indices map_ko_ki) \<noteq> length (shape buffer32)"
proof -
  have c: "Collect_exprs (host_of [sum_ko_ki]) i it p rb a = Inr splits_ko_ki" for i it p rb a
    by (simp add: Collect_exprs_def host_of_def sum_ko_ki_def leaf_split_def splits_ko_ki_def)
  have "SuggestIndexMap (host_of [sum_ko_ki]) buffer32 [index_ko_ki] loops_ko_ki (IntImm 1) []
     = Inr (Some map_ko_ki, [(''i'', RangeNode (IntImm 0) (IntImm 32))])"
    unfolding SuggestIndexMap_after_flatten [OF GetStrides_buffer32 flatten_buffer32] c
    by (simp add: splits_ko_ki_def sort_order_ko_ki alter_layout_ko_ki map_ko_ki_def)
  with c show ?thesis
    by (simp add: map_ko_ki_def digits_ko_ki_def splits_ko_ki_def buffer32_def)
qed

text \<open>
  Claim C1, amended. The map of a successful call takes as many coordinates as the buffer
  has dimensions, the placeholders of the original coordinates, and yields as many
  expressions as there are split components, the new coordinates; it is the remapping
  function applied to the placeholders, and the same arguments give the same map.
\<close>

theorem remapping_arity:
  assumes "SuggestIndexMap H buffer indices loops predicate analyzer = Inr (Some m, analyzer')"
  shows "\<exists>strds index split_exprs order.
           GetStrides buffer = Inr strds \<and>
           f_flatten_index (length (shape buffer)) strds indices = Inr index \<and>
           Collect_exprs H index (fst (collect_loops loops 0 (Map.empty, Map.empty))) predicate
             False analyzer = Inr split_exprs \<and>
           sort_order H (snd (collect_loops loops 0 (Map.empty, Map.empty))) split_exprs = Inr order \<and>
           f_alter_layout H analyzer (length (shape buffer)) strds split_exprs order (shape buffer)
             (initial_indices m) = Inr (final_indices m, analyzer') \<and>
           length (initial_indices m) = length (shape buffer) \<and>
           length (final_indices m) = length split_exprs"
proof -
  from SuggestIndexMap_Some [OF assms] obtain strds index split_exprs order
    where h: "GetStrides buffer = Inr strds"
      "f_flatten_index (length (shape buffer)) strds indices = Inr index"
      "Collect_exprs H index (fst (collect_loops loops 0 (Map.empty, Map.empty))) predicate
             False analyzer = Inr split_exprs"
      "sort_order H (snd (collect_loops loops 0 (Map.empty, Map.empty))) split_exprs = Inr order"
      "f_alter_layout H analyzer (length (shape buffer)) strds split_exprs order (shape buffer)
             (initial_indices m) = Inr (final_indices m, analyzer')"
    by blast
  from f_alter_layout_Inr(1,2) [OF h(5)] h show ?thesis by blast
qed

theorem remapping_arity_witness:
  "SuggestIndexMap (host_of [sum_ko_ki]) buffer32 [index_ko_ki] loops_ko_ki (IntImm 1) []
     = Inr (Some map_ko_ki, [(''i'', RangeNode (IntImm 0) (IntImm 32))])
   \<and> Collect_exprs (host_of [sum_ko_ki]) (Add (IntImm 0) (Mul (IntImm 1) index_ko_ki))
        (fst (collect_loops loops_ko_ki 0 (Map.empty, Map.empty))) (IntImm 1) False []
     = Inr splits_ko_ki
   \<and> length (initial_indices map_ko_ki) = length (shape buffer32)
   \<and> length (final_indices map_ko_ki) = length splits_ko_ki"
proof -
  have c: "Collect_exprs (host_of [sum_ko_ki]) i it p rb a = Inr splits_ko_ki" for i it p rb a
    by (simp add: Collect_exprs_def host_of_def sum_ko_ki_def leaf_split_def splits_ko_ki_def)
  have s: "SuggestIndexMap (host_of [sum_ko_ki]) buffer32 [index_ko_ki] loops_ko_ki (IntImm 1) []
     = Inr (Some map_ko_ki, [(''i'', RangeNode (IntImm 0) (IntImm 32))])"
    unfolding SuggestIndexMap_after_flatten [OF GetStrides_buffer32 flatten_buffer32] c
    by (simp add: splits_ko_ki_def sort_order_ko_ki alter_layout_ko_ki map_ko_ki_def)
  from remapping_arity [OF s] s c show ?thesis by auto
qed





lemma narrow_int_id: "- 2147483648 \<le> x \<Longrightarrow> x < 2147483648 \<Longrightarrow> narrow_int x = x"
  by (simp add: narrow_int_def)




end
